theory Spec2Isabelle
  imports Main "HOL-Library.AList"
begin

section \<open>JavaScript strings\<close>

text \<open>
  Strings are character lists. \<open>String.prototype.toLowerCase\<close> belongs to the runtime:
  it follows the Unicode case mappings, and some of them depend on where a letter stands in
  the string (a capital sigma at the end of a word). Every function below that lower-cases
  takes it as the parameter \<open>toLowerCase\<close>, and what is proved of such a function holds
  for every value of that parameter. \<open>asciiLowerCase\<close> is what the runtime computes on
  ASCII text: \<open>A\<close> .. \<open>Z\<close> go to \<open>a\<close> .. \<open>z\<close>, every other character is kept; it
  stands for the parameter in the examples, which are ASCII.
\<close>

definition caseTable :: "(char \<times> char) list" where
  "caseTable = zip ''ABCDEFGHIJKLMNOPQRSTUVWXYZ'' ''abcdefghijklmnopqrstuvwxyz''"

definition toLowerChar :: "char \<Rightarrow> char" where
  "toLowerChar c = (case map_of caseTable c of Some l \<Rightarrow> l | None \<Rightarrow> c)"

definition asciiLowerCase :: "string \<Rightarrow> string" where
  "asciiLowerCase s = map toLowerChar s"

text \<open>
  \<open>s.split(d)\<close> for a one-character separator: the pieces between the separators,
  never an empty array (\<open>''.split('/')\<close> is \<open>['']\<close>).
\<close>

fun split :: "char \<Rightarrow> string \<Rightarrow> string list" where
  "split d [] = [[]]"
| "split d (c # cs) =
     (if c = d then [] # split d cs
      else (case split d cs of [] \<Rightarrow> [[c]] | w # ws \<Rightarrow> (c # w) # ws))"

text \<open>\<open>parts.join(d)\<close>.\<close>

fun join :: "char \<Rightarrow> string list \<Rightarrow> string" where
  "join d [] = []"
| "join d [w] = w"
| "join d (w # ws) = w @ d # join d ws"

text \<open>\<open>s.replace(/\.md$/i, '')\<close>: a final \<open>.md\<close>, in any letter case, is removed.\<close>

definition replaceMd :: "string \<Rightarrow> string" where
  "replaceMd s =
     (case rev s of
        d # m # dot # r \<Rightarrow>
          if dot = CHR ''.'' \<and> (m = CHR ''m'' \<or> m = CHR ''M'') \<and> (d = CHR ''d'' \<or> d = CHR ''D'')
          then rev r else s
      | _ \<Rightarrow> s)"

text \<open>\<open>String.prototype.trim\<close>, on the ASCII white space (tab, line feed, vertical tab, form
  feed, carriage return, space).\<close>

definition isWhiteSpace :: "char \<Rightarrow> bool" where
  "isWhiteSpace c = (c \<in> set [CHR 0x09, CHR 0x0A, CHR 0x0B, CHR 0x0C, CHR 0x0D, CHR '' ''])"

definition trim :: "string \<Rightarrow> string" where
  "trim s = rev (dropWhile isWhiteSpace (rev (dropWhile isWhiteSpace s)))"

section \<open>The data model\<close>

text \<open>
  An entry of \<open>this.notes\<close>, as the backend lists it. \<open>type\<close> is the string the
  code compares with \<open>'note'\<close>; \<open>tags\<close> is \<open>None\<close> where the property is absent.
\<close>

record note_entry =
  path :: string
  name :: string
  folder :: string
  type :: string
  tags :: "string list option"

text \<open>The five existence maps of \<open>_noteLookup\<close> (key \<open>\<rightarrow>\<close> \<open>true\<close>).\<close>

record note_lookup =
  byPath :: "string \<rightharpoonup> bool"
  byPathLower :: "string \<rightharpoonup> bool"
  byName :: "string \<rightharpoonup> bool"
  byNameLower :: "string \<rightharpoonup> bool"
  byEndPath :: "string \<rightharpoonup> bool"

text \<open>
  A folder node: \<open>{name, path, children, notes}\<close>, with \<open>noteCount\<close> absent (\<open>None\<close>)
  until \<open>calculateNoteCounts\<close> stores it. An object used as a dictionary (the tree, and
  the \<open>children\<close> of a node) is the list of its own properties in insertion order
  (JavaScript enumerates keys that are array indices first; the order of the children
  plays no part in what is proved here).
\<close>

datatype folder_node = FolderNode
  (node_name: string) (node_path: string)
  (children: "(string \<times> folder_node) list")
  (node_notes: "note_entry list")
  (noteCount: "nat option")

text \<open>
  An item of \<open>data.results\<close> of the search endpoint, and an item of \<open>searchResults\<close>,
  which holds entries of \<open>notes\<close> under a tag filter and search results under a text search.
\<close>

datatype search_result = SearchResult (result_path: string) (snippet: string)

datatype result_item = NoteItem note_entry | SearchItem search_result

text \<open>An entry of the undo and redo stacks.\<close>

record history_entry =
  content :: string
  cursorPos :: nat

text \<open>
  The part of the component state (\<open>this\<close>) that the modelled methods read and write
  (\<open>notes\<close> is a reserved word of Isabelle: the field is \<open>notes'\<close>; the leading
  underscore of \<open>_noteLookup\<close>, \<open>_mediaLookup\<close>, \<open>_lastRenderedContent\<close> and
  \<open>_cachedRenderedHTML\<close> is dropped).
\<close>

record app =
  notes' :: "note_entry list"
  allFolders :: "string list"
  folderTree :: "(string \<times> folder_node) list"
  noteLookup :: note_lookup
  mediaLookup :: "string \<rightharpoonup> string"
  selectedTags :: "string list"
  searchQuery :: string
  searchResults :: "result_item list"
  isSearching :: bool
  currentSearchHighlight :: string
  currentNote :: string
  noteContent :: string
  undoHistory :: "history_entry list"
  redoHistory :: "history_entry list"
  maxHistorySize :: nat
  isUndoRedo :: bool
  hasPendingHistoryChanges :: bool
  lastRenderedContent :: string
  cachedRenderedHTML :: string

text \<open>\<open>Map.prototype.has\<close>.\<close>

definition has :: "('k \<rightharpoonup> 'v) \<Rightarrow> 'k \<Rightarrow> bool" where
  "has m k = (m k \<noteq> None)"

text \<open>The five maps after \<open>clear()\<close>.\<close>

definition clearedLookup :: note_lookup where
  "clearedLookup = \<lparr>byPath = Map.empty, byPathLower = Map.empty, byName = Map.empty,
                     byNameLower = Map.empty, byEndPath = Map.empty\<rparr>"

text \<open>\<open>CONFIG.MAX_UNDO_HISTORY\<close>.\<close>

definition MAX_UNDO_HISTORY :: nat where
  "MAX_UNDO_HISTORY = 50"

text \<open>The state the component starts in (the initial values of its data properties).\<close>

definition initial :: app where
  "initial = \<lparr>notes' = [], allFolders = [], folderTree = [],
               noteLookup = clearedLookup, mediaLookup = Map.empty,
               selectedTags = [], searchQuery = [], searchResults = [], isSearching = False,
               currentSearchHighlight = [], currentNote = [], noteContent = [],
               undoHistory = [], redoHistory = [], maxHistorySize = MAX_UNDO_HISTORY,
               isUndoRedo = False, hasPendingHistoryChanges = False,
               lastRenderedContent = [], cachedRenderedHTML = []\<rparr>"

section \<open>NoteIndex\<close>

text \<open>The last path segment: \<open>path.split('/').pop()\<close>.\<close>

definition filename :: "string \<Rightarrow> string" where
  "filename p = last (split CHR ''/'' p)"

text \<open>One iteration of the loop of \<open>buildNoteLookupMaps\<close>.\<close>

definition registerEntry :: "(string \<Rightarrow> string) \<Rightarrow> app \<Rightarrow> note_entry \<Rightarrow> app" where
  "registerEntry toLowerCase s note =
     (let p = path note; pathLower = toLowerCase p;
          n = name note; nameLower = toLowerCase n
      in if type note \<noteq> ''note'' then
           (let filenameWithExt = toLowerCase (filename p)
            in if \<not> has (mediaLookup s) filenameWithExt
               then s\<lparr>mediaLookup := (mediaLookup s)(filenameWithExt \<mapsto> p)\<rparr>
               else s)
         else
           (let nameWithoutMd = replaceMd n;
                nameWithoutMdLower = toLowerCase nameWithoutMd;
                L = noteLookup s
            in s\<lparr>noteLookup := L\<lparr>
                 byPath := (byPath L)(p \<mapsto> True, replaceMd p \<mapsto> True),
                 byPathLower := (byPathLower L)(pathLower \<mapsto> True, replaceMd pathLower \<mapsto> True),
                 byName := (byName L)(n \<mapsto> True, nameWithoutMd \<mapsto> True),
                 byNameLower := (byNameLower L)(nameLower \<mapsto> True, nameWithoutMdLower \<mapsto> True),
                 byEndPath := (byEndPath L)(CHR ''/'' # nameWithoutMdLower \<mapsto> True,
                                            CHR ''/'' # nameLower \<mapsto> True)\<rparr>\<rparr>))"

definition buildNoteLookupMaps :: "(string \<Rightarrow> string) \<Rightarrow> app \<Rightarrow> app" where
  "buildNoteLookupMaps toLowerCase s =
     foldl (registerEntry toLowerCase) (s\<lparr>noteLookup := clearedLookup, mediaLookup := Map.empty\<rparr>) (notes' s)"

definition wikiLinkExists :: "(string \<Rightarrow> string) \<Rightarrow> app \<Rightarrow> string \<Rightarrow> bool" where
  "wikiLinkExists toLowerCase s linkTarget =
     (let targetLower = toLowerCase linkTarget; L = noteLookup s
      in has (byPath L) linkTarget \<or>
         has (byPath L) (linkTarget @ ''.md'') \<or>
         has (byPathLower L) targetLower \<or>
         has (byPathLower L) (targetLower @ ''.md'') \<or>
         has (byName L) linkTarget \<or>
         has (byNameLower L) targetLower \<or>
         has (byEndPath L) (CHR ''/'' # targetLower) \<or>
         has (byEndPath L) (CHR ''/'' # targetLower @ ''.md''))"

text \<open>
  \<open>this._mediaLookup.get(nameLower) || null\<close>: \<open>None\<close> is \<open>null\<close>; a stored empty
  string is falsy and gives \<open>null\<close> too.
\<close>

definition resolveMediaWikilink :: "(string \<Rightarrow> string) \<Rightarrow> app \<Rightarrow> string \<Rightarrow> string option" where
  "resolveMediaWikilink toLowerCase s mediaName =
     (let nameLower = toLowerCase mediaName
      in case mediaLookup s nameLower of
           None \<Rightarrow> None
         | Some p \<Rightarrow> if p = [] then None else Some p)"



section \<open>FolderTree Builder\<close>

datatype js_error = TypeError

text \<open>
  Reading \<open>current[part]\<close> on an object created by \<open>{}\<close>: an own property, a property
  inherited from \<open>Object.prototype\<close> (a function or the prototype itself: truthy, and its
  \<open>children\<close> and \<open>notes\<close> are \<open>undefined\<close>), or \<open>undefined\<close>.
\<close>

definition objectPrototypeKeys :: "string list" where
  "objectPrototypeKeys =
     [''constructor'', ''__defineGetter__'', ''__defineSetter__'', ''hasOwnProperty'',
      ''__lookupGetter__'', ''__lookupSetter__'', ''isPrototypeOf'', ''propertyIsEnumerable'',
      ''toString'', ''valueOf'', ''__proto__'', ''toLocaleString'']"

datatype 'a property = Own 'a | Inherited | Undefined

definition getProp :: "(string \<times> 'a) list \<Rightarrow> string \<Rightarrow> 'a property" where
  "getProp obj k =
     (case map_of obj k of
        Some v \<Rightarrow> Own v
      | None \<Rightarrow> if k \<in> set objectPrototypeKeys then Inherited else Undefined)"

text \<open>
  The walk of \<open>parts.forEach\<close> for one path of \<open>allFolders\<close>, from the object \<open>current\<close>
  down: \<open>walked\<close> are the parts already passed (\<open>parts.slice(0, index)\<close>). After an
  inherited property \<open>current\<close> is \<open>undefined\<close>, and reading a further part of it throws.
\<close>

fun addFolderParts ::
  "string list \<Rightarrow> string list \<Rightarrow> (string \<times> folder_node) list
     \<Rightarrow> js_error + (string \<times> folder_node) list" where
  "addFolderParts walked [] current = Inr current"
| "addFolderParts walked (part # rest) current =
     (let fullPath = join CHR ''/'' (walked @ [part])
      in case getProp current part of
           Inherited \<Rightarrow> if rest = [] then Inr current else Inl TypeError
         | Undefined \<Rightarrow>
             (case addFolderParts (walked @ [part]) rest [] of
                Inl e \<Rightarrow> Inl e
              | Inr cs \<Rightarrow> Inr (current @ [(part, FolderNode part fullPath cs [] None)]))
         | Own node \<Rightarrow>
             (case addFolderParts (walked @ [part]) rest (children node) of
                Inl e \<Rightarrow> Inl e
              | Inr cs \<Rightarrow>
                  Inr (AList.update part
                         (FolderNode (node_name node) (node_path node) cs (node_notes node)
                            (noteCount node)) current)))"

text \<open>
  The \<open>for\<close> loop that files a note under its folder. On an inherited property the push
  onto its \<open>notes\<close>, or the read of the next part, throws.
\<close>

fun addNoteParts ::
  "note_entry \<Rightarrow> string list \<Rightarrow> string list \<Rightarrow> (string \<times> folder_node) list
     \<Rightarrow> js_error + (string \<times> folder_node) list" where
  "addNoteParts note walked [] current = Inr current"
| "addNoteParts note walked (part # rest) current =
     (let fullPath = join CHR ''/'' (walked @ [part])
      in case getProp current part of
           Inherited \<Rightarrow> Inl TypeError
         | Undefined \<Rightarrow>
             if rest = [] then Inr (current @ [(part, FolderNode part fullPath [] [note] None)])
             else
               (case addNoteParts note (walked @ [part]) rest [] of
                  Inl e \<Rightarrow> Inl e
                | Inr cs \<Rightarrow> Inr (current @ [(part, FolderNode part fullPath cs [] None)]))
         | Own node \<Rightarrow>
             if rest = [] then
               Inr (AList.update part
                      (FolderNode (node_name node) (node_path node) (children node)
                         (node_notes node @ [note]) (noteCount node)) current)
             else
               (case addNoteParts note (walked @ [part]) rest (children node) of
                  Inl e \<Rightarrow> Inl e
                | Inr cs \<Rightarrow>
                    Inr (AList.update part
                           (FolderNode (node_name node) (node_path node) cs (node_notes node)
                              (noteCount node)) current)))"

text \<open>One round of \<open>this.allFolders.forEach\<close> and of \<open>this.notes.forEach\<close>.\<close>

definition addFolder ::
  "(string \<times> folder_node) list \<Rightarrow> string \<Rightarrow> js_error + (string \<times> folder_node) list" where
  "addFolder tree folderPath = addFolderParts [] (split CHR ''/'' folderPath) tree"

definition addNote ::
  "(string \<times> folder_node) list \<Rightarrow> note_entry \<Rightarrow> js_error + (string \<times> folder_node) list" where
  "addNote tree note =
     (if folder note = [] then
        (case getProp tree ''__root__'' of
           Own root \<Rightarrow>
             Inr (AList.update ''__root__''
                    (FolderNode (node_name root) (node_path root) (children root)
                       (node_notes root @ [note]) (noteCount root)) tree)
         | Inherited \<Rightarrow> Inl TypeError
         | Undefined \<Rightarrow> Inr (tree @ [(''__root__'', FolderNode [] [] [] [note] None)]))
      else addNoteParts note [] (split CHR ''/'' (folder note)) tree)"

text \<open>A \<open>forEach\<close> whose body may throw.\<close>

fun forEach :: "('s \<Rightarrow> 'a \<Rightarrow> 'e + 's) \<Rightarrow> 's \<Rightarrow> 'a list \<Rightarrow> 'e + 's" where
  "forEach f s [] = Inr s"
| "forEach f s (x # xs) = (case f s x of Inl e \<Rightarrow> Inl e | Inr s' \<Rightarrow> forEach f s' xs)"

text \<open>
  \<open>[...notes].sort(compare)\<close>, as a stable insertion sort. \<open>String.prototype.localeCompare\<close>
  belongs to the runtime and enters as the parameter \<open>localeCompare\<close>.
\<close>

fun insertSorted :: "('a \<Rightarrow> 'a \<Rightarrow> int) \<Rightarrow> 'a \<Rightarrow> 'a list \<Rightarrow> 'a list" where
  "insertSorted compare x [] = [x]"
| "insertSorted compare x (y # ys) =
     (if compare x y < 0 then x # y # ys else y # insertSorted compare x ys)"

definition sortArray :: "('a \<Rightarrow> 'a \<Rightarrow> int) \<Rightarrow> 'a list \<Rightarrow> 'a list" where
  "sortArray compare xs = foldl (\<lambda>sorted x. insertSorted compare x sorted) [] xs"

definition compareNames :: "(string \<Rightarrow> string) \<Rightarrow> (string \<Rightarrow> string \<Rightarrow> int) \<Rightarrow> note_entry \<Rightarrow> note_entry \<Rightarrow> int" where
  "compareNames toLowerCase localeCompare a b = localeCompare (toLowerCase (name a)) (toLowerCase (name b))"

fun sortNotes :: "(string \<Rightarrow> string) \<Rightarrow> (string \<Rightarrow> string \<Rightarrow> int) \<Rightarrow> folder_node \<Rightarrow> folder_node" where
  "sortNotes toLowerCase localeCompare (FolderNode n p cs ns c) =
     FolderNode n p
       (if length cs > 0 then map (\<lambda>(k, child). (k, sortNotes toLowerCase localeCompare child)) cs else cs)
       (if length ns > 0 then sortArray (compareNames toLowerCase localeCompare) ns else ns)
       c"

text \<open>The root bucket is sorted first, then every value of the tree, the root again
  among them (its \<open>path\<close> is the empty string, not \<open>undefined\<close>).\<close>

definition sortRoot ::
  "(string \<Rightarrow> string) \<Rightarrow> (string \<Rightarrow> string \<Rightarrow> int) \<Rightarrow> (string \<times> folder_node) list \<Rightarrow> (string \<times> folder_node) list" where
  "sortRoot toLowerCase localeCompare tree =
     (case map_of tree ''__root__'' of
        None \<Rightarrow> tree
      | Some root \<Rightarrow>
          AList.update ''__root__''
            (FolderNode (node_name root) (node_path root) (children root)
               (sortArray (compareNames toLowerCase localeCompare) (node_notes root)) (noteCount root)) tree)"

text \<open>\<open>calculateNoteCounts\<close> stores the count in the node and returns it.\<close>

fun calculateNoteCounts :: "folder_node \<Rightarrow> folder_node \<times> nat" where
  "calculateNoteCounts (FolderNode n p cs ns c) =
     (let directNotes = length ns
      in if length cs = 0 then (FolderNode n p cs ns (Some directNotes), directNotes)
         else
           (let results = map (\<lambda>(k, child). (k, calculateNoteCounts child)) cs;
                childNotesCount = foldl (\<lambda>total (k, r). total + snd r) 0 results
            in (FolderNode n p (map (\<lambda>(k, r). (k, fst r)) results) ns
                  (Some (directNotes + childNotesCount)),
                directNotes + childNotesCount)))"

text \<open>
  \<open>buildFolderTree\<close>: the local \<open>tree\<close> is built, sorted and counted, and assigned to
  \<open>this.folderTree\<close> at the end; an exception on the way leaves the state as it was.
\<close>

definition buildTree ::
  "(string \<Rightarrow> string) \<Rightarrow> (string \<Rightarrow> string \<Rightarrow> int) \<Rightarrow> string list \<Rightarrow> note_entry list
     \<Rightarrow> js_error + (string \<times> folder_node) list" where
  "buildTree toLowerCase localeCompare folders entries =
     (case forEach addFolder [] folders of
        Inl e \<Rightarrow> Inl e
      | Inr withFolders \<Rightarrow>
          (case forEach addNote withFolders entries of
             Inl e \<Rightarrow> Inl e
           | Inr withNotes \<Rightarrow>
               Inr (map (\<lambda>(k, node). (k, fst (calculateNoteCounts node)))
                      (map (\<lambda>(k, node). (k, sortNotes toLowerCase localeCompare node))
                         (sortRoot toLowerCase localeCompare withNotes)))))"

definition buildFolderTree :: "(string \<Rightarrow> string) \<Rightarrow> (string \<Rightarrow> string \<Rightarrow> int) \<Rightarrow> app \<Rightarrow> js_error + app" where
  "buildFolderTree toLowerCase localeCompare s =
     (case buildTree toLowerCase localeCompare (allFolders s) (notes' s) of
        Inl e \<Rightarrow> Inl e
      | Inr tree \<Rightarrow> Inr (s\<lparr>folderTree := tree\<rparr>))"

text \<open>Every node of a tree, the children of children included.\<close>

fun allNodes :: "folder_node \<Rightarrow> folder_node list" where
  "allNodes (FolderNode n p cs ns c) =
     FolderNode n p cs ns c # concat (map (\<lambda>(k, child). allNodes child) cs)"

definition treeNodes :: "(string \<times> folder_node) list \<Rightarrow> folder_node list" where
  "treeNodes tree = concat (map (\<lambda>(k, node). allNodes node) tree)"

text \<open>The brute-force count: the notes of every node of the subtree.\<close>

definition countNotes :: "folder_node \<Rightarrow> nat" where
  "countNotes f = length (concat (map node_notes (allNodes f)))"

text \<open>The cached count of a node, as a number (\<open>0\<close> stands in for an absent count).\<close>

definition cachedCount :: "folder_node \<Rightarrow> nat" where
  "cachedCount f = (case noteCount f of Some c \<Rightarrow> c | None \<Rightarrow> 0)"

text \<open>The invariant of one node.\<close>

definition countOK :: "folder_node \<Rightarrow> bool" where
  "countOK f =
     (noteCount f =
        Some (length (node_notes f) + sum_list (map (\<lambda>(k, child). cachedCount child) (children f))))"

section \<open>Filter Engine\<close>

definition hasTextSearch :: "app \<Rightarrow> bool" where
  "hasTextSearch s = (length (trim (searchQuery s)) > 0)"

definition hasTagFilter :: "app \<Rightarrow> bool" where
  "hasTagFilter s = (length (selectedTags s) > 0)"

definition noteMatchesTags :: "app \<Rightarrow> note_entry \<Rightarrow> bool" where
  "noteMatchesTags s note =
     (if length (selectedTags s) = 0 then True
      else case tags note of
             None \<Rightarrow> False
           | Some noteTags \<Rightarrow>
               if length noteTags = 0 then False
               else list_all (\<lambda>tag. tag \<in> set noteTags) (selectedTags s))"

text \<open>
  \<open>applyFilters\<close> is asynchronous. The model is split at its \<open>await\<close>: \<open>applyFilters\<close> runs
  up to the request and says how it ended; \<open>applyFilters_response\<close> is the rest of the
  \<open>try\<close> block, run when the answer arrives, with \<open>hasTagFilter\<close> as the request
  captured it. The answer is \<open>Some\<close> of \<open>data.results\<close>, or \<open>None\<close> when the fetch fails.
\<close>

datatype outcome = Done | Threw js_error | Awaiting string bool | Scheduled

definition applyFilters :: "(string \<Rightarrow> string) \<Rightarrow> (string \<Rightarrow> string \<Rightarrow> int) \<Rightarrow> app \<Rightarrow> app \<times> outcome" where
  "applyFilters toLowerCase localeCompare s =
     (if \<not> hasTextSearch s \<and> \<not> hasTagFilter s then
        (let s1 = s\<lparr>isSearching := False, searchResults := [], currentSearchHighlight := []\<rparr>
         in case buildFolderTree toLowerCase localeCompare s1 of
              Inl e \<Rightarrow> (s1, Threw e)
            | Inr s2 \<Rightarrow> (s2, Done))
      else if hasTagFilter s \<and> \<not> hasTextSearch s then
        (s\<lparr>isSearching := False,
           searchResults :=
             map NoteItem (filter (\<lambda>note. type note = ''note'' \<and> noteMatchesTags s note) (notes' s)),
           currentSearchHighlight := []\<rparr>, Done)
      else (s\<lparr>isSearching := True\<rparr>, Awaiting (searchQuery s) (hasTagFilter s)))"

definition applyFilters_response :: "bool \<Rightarrow> search_result list option \<Rightarrow> app \<Rightarrow> app" where
  "applyFilters_response tagFilter answer s =
     (case answer of
        None \<Rightarrow> s\<lparr>searchResults := [], isSearching := False\<rparr>
      | Some dataResults \<Rightarrow>
          (let results =
                 (if tagFilter then
                    filter (\<lambda>result.
                      case find (\<lambda>n. path n = result_path result) (notes' s) of
                        Some note \<Rightarrow> noteMatchesTags s note
                      | None \<Rightarrow> False) dataResults
                  else dataResults);
               s1 = s\<lparr>searchResults := map SearchItem results\<rparr>;
               s2 = (if currentNote s1 \<noteq> [] \<and> noteContent s1 \<noteq> []
                     then s1\<lparr>currentSearchHighlight := searchQuery s1\<rparr> else s1)
           in s2\<lparr>isSearching := False\<rparr>))"

text \<open>
  \<open>debouncedSearchNotes\<close>, called when the search field changes: without text the filters
  are applied at once; with text the results are cleared and the timer is started, and
  \<open>applyFilters\<close> runs when it fires.
\<close>

definition debouncedSearchNotes :: "(string \<Rightarrow> string) \<Rightarrow> (string \<Rightarrow> string \<Rightarrow> int) \<Rightarrow> app \<Rightarrow> app \<times> outcome" where
  "debouncedSearchNotes toLowerCase localeCompare s =
     (if \<not> hasTextSearch s then applyFilters toLowerCase localeCompare (s\<lparr>isSearching := False\<rparr>)
      else (s\<lparr>isSearching := True, searchResults := []\<rparr>, Scheduled))"

text \<open>The tag set of an entry (\<open>[]\<close> when it has no \<open>tags\<close>).\<close>

definition tagsOf :: "note_entry \<Rightarrow> string list" where
  "tagsOf note = (case tags note of None \<Rightarrow> [] | Some noteTags \<Rightarrow> noteTags)"

section \<open>Content Renderer\<close>

text \<open>
  Three characters that cannot be written inside a string literal here: the double quote,
  the backtick of code spans and fences, and the NUL character of the placeholders.
\<close>

definition dq :: char where "dq = CHR 0x22"
definition backtick :: char where "backtick = CHR 0x60"
definition nul :: char where "nul = CHR 0x00"

definition quoted :: "string \<Rightarrow> string" where
  "quoted s = dq # s @ [dq]"

definition startsWith :: "string \<Rightarrow> string \<Rightarrow> bool" where
  "startsWith s p = (take (length p) s = p)"

text \<open>\<open>s.indexOf(c)\<close>, with \<open>None\<close> for \<open>-1\<close>.\<close>

fun indexOf :: "string \<Rightarrow> char \<Rightarrow> nat option" where
  "indexOf [] c = None"
| "indexOf (x # xs) c = (if x = c then Some 0 else map_option Suc (indexOf xs c))"

text \<open>\<open>s.replace(/c/g, r)\<close> for a single character \<open>c\<close>.\<close>

definition replaceChar :: "char \<Rightarrow> string \<Rightarrow> string \<Rightarrow> string" where
  "replaceChar c r s = concat (map (\<lambda>x. if x = c then r else [x]) s)"

definition escapeHtml :: "string \<Rightarrow> string" where
  "escapeHtml s =
     replaceChar CHR ''>'' ''&gt;'' (replaceChar CHR ''<'' ''&lt;'' (replaceChar CHR ''&'' ''&amp;'' s))"

text \<open>
  \<open>text.replace(regex, callback)\<close> with a global regular expression, none of which
  matches the empty string here. \<open>matcher\<close> tells, for the text from a position on,
  the length of the match that starts there and its capture groups; the callback gets
  the matched text and the groups, and may update a state (the array it pushes to). The
  scan goes left to right and resumes behind each match: \<open>skip\<close> counts the characters
  of a match still to pass.
\<close>

fun replaceGlobal ::
  "(string \<Rightarrow> (nat \<times> 'g) option) \<Rightarrow> ('st \<Rightarrow> string \<Rightarrow> 'g \<Rightarrow> string \<times> 'st)
     \<Rightarrow> nat \<Rightarrow> 'st \<Rightarrow> string \<Rightarrow> string \<times> 'st" where
  "replaceGlobal matcher callback skip st [] = ([], st)"
| "replaceGlobal matcher callback (Suc k) st (c # cs) = replaceGlobal matcher callback k st cs"
| "replaceGlobal matcher callback 0 st (c # cs) =
     (case matcher (c # cs) of
        Some (n, groups) \<Rightarrow>
          (let (replacement, st1) = callback st (take n (c # cs)) groups;
               (out, st2) = replaceGlobal matcher callback (n - 1) st1 cs
           in (replacement @ out, st2))
      | None \<Rightarrow>
          (let (out, st1) = replaceGlobal matcher callback 0 st cs
           in (c # out, st1)))"

subsection \<open>Frontmatter\<close>

text \<open>The index of the first line from \<open>i\<close> on that is \<open>---\<close> after trimming.\<close>

fun findClosing :: "nat \<Rightarrow> string list \<Rightarrow> nat option" where
  "findClosing i [] = None"
| "findClosing i (l # ls) = (if trim l = ''---'' then Some i else findClosing (Suc i) ls)"

definition stripFrontmatter :: "string \<Rightarrow> string" where
  "stripFrontmatter contentToRender =
     (if startsWith (trim contentToRender) ''---'' then
        (case split CHR 0x0A contentToRender of
           [] \<Rightarrow> contentToRender
         | first # others \<Rightarrow>
             if trim first = ''---'' then
               (case findClosing 1 others of
                  None \<Rightarrow> contentToRender
                | Some endIdx \<Rightarrow> trim (join CHR 0x0A (drop (endIdx + 1) (first # others))))
             else contentToRender)
      else contentToRender)"

subsection \<open>Step 1 and step 3: code is put aside and restored\<close>

text \<open>Decimal digits of a number, and back (\<open>parseInt\<close> on a run of digits).\<close>

fun showNat :: "nat \<Rightarrow> string" where
  "showNat n = (if n < 10 then [char_of (48 + n)] else showNat (n div 10) @ [char_of (48 + n mod 10)])"

definition isDigit :: "char \<Rightarrow> bool" where
  "isDigit c = (c \<in> set ''0123456789'')"

definition parseInt :: "string \<Rightarrow> nat" where
  "parseInt ds = foldl (\<lambda>n d. 10 * n + (of_char d - 48)) 0 ds"

definition placeholder :: "nat \<Rightarrow> string" where
  "placeholder i = nul # ''CODEBLOCK'' @ showNat i @ [nul]"

text \<open>The offset of the first three backticks in a text.\<close>

fun findFence :: "string \<Rightarrow> nat option" where
  "findFence [] = None"
| "findFence (c # cs) =
     (if startsWith (c # cs) [backtick, backtick, backtick] then Some 0
      else map_option Suc (findFence cs))"

text \<open>\<open>/```[\s\S]*?```/\<close>: an opening fence and the nearest closing fence behind it.\<close>

definition matchFence :: "string \<Rightarrow> (nat \<times> unit) option" where
  "matchFence text =
     (if startsWith text [backtick, backtick, backtick] then
        (case findFence (drop 3 text) of
           Some k \<Rightarrow> Some (k + 6, ())
         | None \<Rightarrow> None)
      else None)"

text \<open>\<open>/`[^`]+`/\<close>: a backtick, one or more other characters, a backtick.\<close>

definition matchInlineCode :: "string \<Rightarrow> (nat \<times> unit) option" where
  "matchInlineCode text =
     (case text of
        [] \<Rightarrow> None
      | c # rest \<Rightarrow>
          if c = backtick then
            (let body = takeWhile (\<lambda>x. x \<noteq> backtick) rest
             in if body \<noteq> [] \<and> startsWith (drop (length body) rest) [backtick]
                then Some (length body + 2, ()) else None)
          else None)"

definition protect :: "string list \<Rightarrow> string \<Rightarrow> unit \<Rightarrow> string \<times> string list" where
  "protect codeBlocks matched groups =
     (placeholder (length (codeBlocks @ [matched]) - 1), codeBlocks @ [matched])"

text \<open>\<open>/\x00CODEBLOCK(\d+)\x00/\<close>, and \<open>codeBlocks[parseInt(index)]\<close>, which is
  \<open>undefined\<close> out of range (and then the text \<open>undefined\<close> in the result).\<close>

definition matchPlaceholder :: "string \<Rightarrow> (nat \<times> string) option" where
  "matchPlaceholder text =
     (if startsWith text (nul # ''CODEBLOCK'') then
        (let digits = takeWhile isDigit (drop 10 text)
         in if digits \<noteq> [] \<and> startsWith (drop (10 + length digits) text) [nul]
            then Some (10 + length digits + 1, digits) else None)
      else None)"

definition restore :: "string list \<Rightarrow> string \<Rightarrow> string \<Rightarrow> string \<times> string list" where
  "restore codeBlocks matched index =
     ((if parseInt index < length codeBlocks then codeBlocks ! parseInt index
       else ''undefined''), codeBlocks)"

subsection \<open>Step 2 and step 2b: media embeds and note links\<close>

text \<open>
  \<open>/\[\[([^\]|]+)(?:\|([^\]]+))?\]\]/\<close> at the start of a text: the target runs to the
  first \<open>]\<close> or \<open>|\<close> and is not empty; after a \<open>|\<close> the display text runs to the first
  \<open>]\<close> and is not empty; two \<open>]\<close> close the link. The groups are the target and the
  display text (\<open>None\<close> for \<open>undefined\<close>).
\<close>

definition matchWikilink :: "string \<Rightarrow> (nat \<times> string \<times> string option) option" where
  "matchWikilink text =
     (if startsWith text ''[['' then
        (let target = takeWhile (\<lambda>x. x \<noteq> CHR '']'' \<and> x \<noteq> CHR ''|'') (drop 2 text);
             afterTarget = drop (2 + length target) text
         in if target = [] then None
            else if startsWith afterTarget '']]'' then Some (2 + length target + 2, target, None)
            else if startsWith afterTarget ''|'' then
              (let display = takeWhile (\<lambda>x. x \<noteq> CHR '']'') (drop 1 afterTarget);
                   afterDisplay = drop (1 + length display) afterTarget
               in if display \<noteq> [] \<and> startsWith afterDisplay '']]''
                  then Some (2 + length target + 1 + length display + 2, target, Some display)
                  else None)
            else None)
      else None)"

text \<open>The same behind an exclamation mark: \<open>/!\[\[([^\]|]+)(?:\|([^\]]+))?\]\]/\<close>.\<close>

definition matchMediaWikilink :: "string \<Rightarrow> (nat \<times> string \<times> string option) option" where
  "matchMediaWikilink text =
     (case text of
        [] \<Rightarrow> None
      | c # rest \<Rightarrow>
          if c = CHR ''!'' then
            (case matchWikilink rest of
               Some (n, groups) \<Rightarrow> Some (Suc n, groups)
             | None \<Rightarrow> None)
          else None)"

text \<open>\<open>getMediaType\<close>: the type of a file by its extension, \<open>None\<close> for \<open>null\<close>.\<close>

definition mediaTypes :: "(string \<times> string list) list" where
  "mediaTypes =
     [(''image'', [''jpg'', ''jpeg'', ''png'', ''gif'', ''webp'']),
      (''audio'', [''mp3'', ''wav'', ''ogg'', ''m4a'']),
      (''video'', [''mp4'', ''webm'', ''mov'', ''avi'']),
      (''document'', [''pdf''])]"

definition getMediaType :: "(string \<Rightarrow> string) \<Rightarrow> string \<Rightarrow> string option" where
  "getMediaType toLowerCase file =
     (if file = [] then None
      else (let ext = toLowerCase (last (split CHR ''.'' file))
            in map_option fst (find (\<lambda>(mediaType, extensions). ext \<in> set extensions) mediaTypes)))"

text \<open>\<open>filename.replace(/\.[^/.]+$/, '')\<close>: a final extension is removed.\<close>

definition removeExtension :: "string \<Rightarrow> string" where
  "removeExtension file =
     (let ext = rev (takeWhile (\<lambda>x. x \<noteq> CHR ''.'') (rev file))
      in if CHR ''.'' \<in> set file \<and> ext \<noteq> [] \<and> CHR ''/'' \<notin> set ext
         then take (length file - length ext - 1) file else file)"

text \<open>The icons of the broken media indicator, as the bytes the source file holds.\<close>

definition mediaIcon :: "string option \<Rightarrow> string" where
  "mediaIcon mediaType =
     (if mediaType = Some ''audio''
        then [CHR 0xC3, CHR 0xB0, CHR 0xC5, CHR 0xB8, CHR 0xC5, CHR 0xBD, CHR 0xC2, CHR 0xB5]
      else if mediaType = Some ''video''
        then [CHR 0xC3, CHR 0xB0, CHR 0xC5, CHR 0xB8, CHR 0xC5, CHR 0xBD, CHR 0xC2, CHR 0xAC]
      else if mediaType = Some ''document''
        then [CHR 0xC3, CHR 0xB0, CHR 0xC5, CHR 0xB8, CHR 0xE2, CHR 0x80, CHR 0x9C,
              CHR 0xE2, CHR 0x80, CHR 0x9E]
      else [CHR 0xC3, CHR 0xB0, CHR 0xC5, CHR 0xB8, CHR 0xE2, CHR 0x80, CHR 0x93,
            CHR 0xC2, CHR 0xBC, CHR 0xC3, CHR 0xAF, CHR 0xC2, CHR 0xB8])"

text \<open>
  The callback of step 2. \<open>encodeSegment\<close> is the runtime's
  \<open>encodeURIComponent(decodeURIComponent(segment))\<close>, with \<open>encodeURIComponent(segment)\<close>
  where decoding throws.
\<close>

definition mediaEmbed ::
  "(string \<Rightarrow> string) \<Rightarrow> (string \<Rightarrow> string) \<Rightarrow> app \<Rightarrow> string \<Rightarrow> string option \<Rightarrow> string" where
  "mediaEmbed toLowerCase encodeSegment s mediaName altText =
     (let file = trim mediaName;
          alt = (case altText of
                   Some a \<Rightarrow> if a \<noteq> [] then trim a else removeExtension file
                 | None \<Rightarrow> removeExtension file)
      in case resolveMediaWikilink toLowerCase s file of
           Some mediaPath \<Rightarrow>
             (let encodedPath = join CHR ''/'' (map encodeSegment (split CHR ''/'' mediaPath));
                  safeAlt = replaceChar dq ''&quot;'' alt;
                  mediaSrc = ''/api/media/'' @ encodedPath;
                  mediaType = getMediaType toLowerCase file
              in if mediaType = Some ''audio'' then
                   ''<div class='' @ quoted ''media-embed media-audio'' @ ''><audio controls preload=''
                   @ quoted ''none'' @ '' src='' @ quoted mediaSrc @ '' title='' @ quoted safeAlt
                   @ ''></audio><span class='' @ quoted ''media-caption'' @ ''>'' @ safeAlt
                   @ ''</span></div>''
                 else if mediaType = Some ''video'' then
                   ''<div class='' @ quoted ''media-embed media-video'' @ ''><video controls preload=''
                   @ quoted ''none'' @ '' poster='' @ quoted [] @ '' src='' @ quoted mediaSrc
                   @ '' title='' @ quoted safeAlt @ ''></video></div>''
                 else if mediaType = Some ''document'' then
                   ''<div class='' @ quoted ''media-embed media-pdf'' @ ''><iframe src=''
                   @ quoted mediaSrc @ '' title='' @ quoted safeAlt @ ''></iframe></div>''
                 else
                   ''<img src='' @ quoted mediaSrc @ '' alt='' @ quoted safeAlt @ '' title=''
                   @ quoted safeAlt @ ''>'')
         | None \<Rightarrow>
             (let safeFilename = escapeHtml file;
                  mediaType = getMediaType toLowerCase file;
                  icon = mediaIcon mediaType
              in ''<span class='' @ quoted ''wikilink-broken'' @ '' title=''
                 @ quoted ''Media not found'' @ ''>'' @ icon @ '' '' @ safeFilename @ ''</span>''))"

text \<open>The callback of step 2b (lines 4104 to 4121).\<close>

definition noteLink :: "(string \<Rightarrow> string) \<Rightarrow> app \<Rightarrow> string \<Rightarrow> string option \<Rightarrow> string" where
  "noteLink toLowerCase s target displayText =
     (let linkTarget = trim target;
          linkText = (case displayText of
                        Some d \<Rightarrow> if d \<noteq> [] then trim d else linkTarget
                      | None \<Rightarrow> linkTarget);
          hashIndex = indexOf linkTarget CHR ''#'';
          basePath = (case hashIndex of Some i \<Rightarrow> take i linkTarget | None \<Rightarrow> linkTarget);
          noteExists = (basePath = [] \<or> wikiLinkExists toLowerCase s basePath);
          safeHref = replaceChar dq ''%22'' linkTarget;
          safeText = escapeHtml linkText;
          brokenClass = (if noteExists then [] else '' class='' @ quoted ''wikilink-broken'')
      in ''<a href='' @ quoted safeHref @ brokenClass @ '' data-wikilink='' @ quoted ''true''
         @ ''>'' @ safeText @ ''</a>'')"

subsection \<open>The pipeline and its cache\<close>

text \<open>
  The stages from the frontmatter to the restored code. What follows them in the source,
  \<open>marked.parse\<close> and the post-processing of its result in a DOM element, belongs to
  the markdown library and the browser: it enters as the parameter \<open>toHtml\<close>.
\<close>

definition expandLinks :: "(string \<Rightarrow> string) \<Rightarrow> (string \<Rightarrow> string) \<Rightarrow> app \<Rightarrow> string \<Rightarrow> string" where
  "expandLinks toLowerCase encodeSegment s source =
     (let (fenced, blocks1) = replaceGlobal matchFence protect 0 [] (stripFrontmatter source);
          (protected, codeBlocks) = replaceGlobal matchInlineCode protect 0 blocks1 fenced;
          withMedia = fst (replaceGlobal matchMediaWikilink
                        (\<lambda>st matched (mediaName, altText).
                           (mediaEmbed toLowerCase encodeSegment s mediaName altText, st)) 0 () protected);
          withLinks = fst (replaceGlobal matchWikilink
                        (\<lambda>st matched (target, displayText).
                           (noteLink toLowerCase s target displayText, st)) 0 () withMedia)
      in fst (replaceGlobal matchPlaceholder restore 0 codeBlocks withLinks))"

definition renderPipeline ::
  "(string \<Rightarrow> string) \<Rightarrow> (string \<Rightarrow> string) \<Rightarrow> (string \<Rightarrow> string) \<Rightarrow> app \<Rightarrow> string \<Rightarrow> string" where
  "renderPipeline toLowerCase encodeSegment toHtml s source = toHtml (expandLinks toLowerCase encodeSegment s source)"

definition nothingToPreview :: string where
  "nothingToPreview =
     ''<p style='' @ quoted ''color: var(--text-tertiary);'' @ ''>Nothing to preview yet...</p>''"

text \<open>The getter \<open>renderedMarkdown\<close>: the markup it returns and the state it leaves.\<close>

definition renderedMarkdown ::
  "(string \<Rightarrow> string) \<Rightarrow> (string \<Rightarrow> string) \<Rightarrow> (string \<Rightarrow> string) \<Rightarrow> app \<Rightarrow> string \<times> app" where
  "renderedMarkdown toLowerCase encodeSegment toHtml s =
     (if noteContent s = [] then (nothingToPreview, s)
      else if noteContent s = lastRenderedContent s \<and> cachedRenderedHTML s \<noteq> []
        then (cachedRenderedHTML s, s)
      else
        (let html = renderPipeline toLowerCase encodeSegment toHtml s (noteContent s)
         in (html, s\<lparr>lastRenderedContent := noteContent s, cachedRenderedHTML := html\<rparr>)))"

section \<open>History Manager\<close>

text \<open>
  The editor element enters as \<open>editor\<close>: \<open>Some\<close> of its \<open>selectionStart\<close>, or \<open>None\<close>
  when \<open>document.getElementById('note-editor')\<close> finds nothing.
\<close>

definition pushToHistory :: "app \<Rightarrow> app" where
  "pushToHistory s = s\<lparr>hasPendingHistoryChanges := True\<rparr>"

text \<open>\<open>undoHistory.shift()\<close> drops the oldest entry, \<open>push\<close> appends the newest.\<close>

definition commitToHistory :: "nat option \<Rightarrow> app \<Rightarrow> app" where
  "commitToHistory editor s =
     (let cursor = (case editor of Some selectionStart \<Rightarrow> selectionStart | None \<Rightarrow> 0)
      in if length (undoHistory s) > 0 \<and> content (last (undoHistory s)) = noteContent s
         then s\<lparr>hasPendingHistoryChanges := False\<rparr>
         else
           (let pushed = undoHistory s @ [\<lparr>content = noteContent s, cursorPos = cursor\<rparr>];
                limited = (if length pushed > maxHistorySize s then tl pushed else pushed)
            in s\<lparr>undoHistory := limited, redoHistory := [],
                 hasPendingHistoryChanges := False\<rparr>))"

definition flushHistory :: "nat option \<Rightarrow> app \<Rightarrow> app" where
  "flushHistory editor s =
     (if hasPendingHistoryChanges s then commitToHistory editor s else s)"

text \<open>
  \<open>autoSave\<close>, as far as the history goes: the pending flag is set unless an undo or redo
  is being applied. The editor's input event stores the new text in \<open>noteContent\<close> and
  calls \<open>autoSave\<close>; the timer that \<open>autoSave\<close> starts commits when it fires.
\<close>

definition autoSave :: "app \<Rightarrow> app" where
  "autoSave s = (if \<not> isUndoRedo s then pushToHistory s else s)"

definition editContent :: "string \<Rightarrow> app \<Rightarrow> app" where
  "editContent text s = autoSave (s\<lparr>noteContent := text\<rparr>)"

definition saveTimeoutFires :: "nat option \<Rightarrow> app \<Rightarrow> app" where
  "saveTimeoutFires editor s =
     (if hasPendingHistoryChanges s then commitToHistory editor s else s)"

text \<open>
  \<open>undo\<close> and \<open>redo\<close>, up to the \<open>$nextTick\<close> callback, which is \<open>nextTick\<close> below (it
  saves the note and clears \<open>isUndoRedo\<close>; the cursor it restores is not part of the state).
\<close>

definition undo :: "nat option \<Rightarrow> app \<Rightarrow> app" where
  "undo editor s =
     (if currentNote s = [] then s
      else
        (let s1 = flushHistory editor s
         in if length (undoHistory s1) \<le> 1 then s1
            else
              (let currentState = last (undoHistory s1);
                   popped = butlast (undoHistory s1);
                   previousState = last popped
               in s1\<lparr>undoHistory := popped,
                     redoHistory := redoHistory s1 @ [currentState],
                     isUndoRedo := True,
                     noteContent := content previousState\<rparr>)))"

definition redo :: "nat option \<Rightarrow> app \<Rightarrow> app" where
  "redo editor s =
     (if currentNote s = [] then s
      else
        (let s1 = flushHistory editor s
         in if length (redoHistory s1) = 0 then s1
            else
              (let nextState = last (redoHistory s1)
               in s1\<lparr>redoHistory := butlast (redoHistory s1),
                     undoHistory := undoHistory s1 @ [nextState],
                     isUndoRedo := True,
                     noteContent := content nextState\<rparr>)))"

definition nextTick :: "app \<Rightarrow> app" where
  "nextTick s = s\<lparr>isUndoRedo := False\<rparr>"

text \<open>
  \<open>loadNote\<close>, by the answer of the backend: the note's text, a 404, or a failure (which
  the \<open>catch\<close> reports, leaving the state as it is). It is called with the path alone:
  \<open>searchQuery\<close> is its default \<open>''\<close>, so the highlighted term is cleared.
\<close>

datatype response = Ok string | NotFound | Failed

definition loadNote :: "string \<Rightarrow> response \<Rightarrow> app \<Rightarrow> app" where
  "loadNote notePath resp s =
     (case resp of
        Failed \<Rightarrow> s
      | NotFound \<Rightarrow> s\<lparr>currentNote := [], noteContent := []\<rparr>
      | Ok text \<Rightarrow>
          s\<lparr>currentNote := notePath, lastRenderedContent := [], cachedRenderedHTML := [],
            noteContent := text,
            undoHistory := [\<lparr>content = text, cursorPos = 0\<rparr>], redoHistory := [],
            hasPendingHistoryChanges := False, currentSearchHighlight := []\<rparr>)"

text \<open>The operations on an open note, and a run of them.\<close>

datatype history_op =
    RecordEdit string
  | Commit "nat option"
  | SaveTimeout "nat option"
  | Flush "nat option"
  | Undo "nat option"
  | Redo "nat option"
  | NextTick

fun step :: "app \<Rightarrow> history_op \<Rightarrow> app" where
  "step s (RecordEdit text) = editContent text s"
| "step s (Commit editor) = commitToHistory editor s"
| "step s (SaveTimeout editor) = saveTimeoutFires editor s"
| "step s (Flush editor) = flushHistory editor s"
| "step s (Undo editor) = undo editor s"
| "step s (Redo editor) = redo editor s"
| "step s NextTick = nextTick s"

definition run :: "app \<Rightarrow> history_op list \<Rightarrow> app" where
  "run s ops = foldl step s ops"

text \<open>
  The invariant of the two stacks while a note is open: the undo stack is not empty, and
  both stacks together hold no more than \<open>maxHistorySize\<close> entries (so a redo, which
  pushes without trimming, cannot overflow the undo stack).
\<close>

definition histInv :: "app \<Rightarrow> bool" where
  "histInv s = (1 \<le> length (undoHistory s) \<and>
                length (undoHistory s) + length (redoHistory s) \<le> maxHistorySize s)"

text \<open>A session: the note \<open>a.md\<close> is opened with the text \<open>old\<close>, which is edited to
  \<open>new\<close>.\<close>

definition opened :: app where
  "opened = loadNote ''a.md'' (Ok ''old'') initial"

definition edited :: app where
  "edited = editContent ''new'' opened"

section \<open>Example collections\<close>

text \<open>The collection of the spec's scenario (a note at the root and one in a folder),
  with the two images of its media scenario.\<close>

definition noteA :: note_entry where
  "noteA = \<lparr>path = ''a.md'', name = ''a'', folder = [], type = ''note'', tags = None\<rparr>"

definition noteB :: note_entry where
  "noteB = \<lparr>path = ''folder/b.md'', name = ''b'', folder = ''folder'', type = ''note'',
             tags = None\<rparr>"

definition imgA :: note_entry where
  "imgA = \<lparr>path = ''a/Img.png'', name = ''Img.png'', folder = ''a'', type = ''image'',
            tags = None\<rparr>"

definition imgB :: note_entry where
  "imgB = \<lparr>path = ''b/img.png'', name = ''img.png'', folder = ''b'', type = ''image'',
            tags = None\<rparr>"

definition vault :: app where
  "vault = initial\<lparr>notes' := [noteA, imgA, noteB, imgB]\<rparr>"

text \<open>
  A note whose stem ends in a capital sigma: its name is a capital alpha and a capital
  sigma, its path is \<open>f/\<close>, the name and \<open>.md\<close>. The Greek letters are written as their
  UTF-8 bytes: the capital alpha \<open>CE 91\<close>, the capital sigma \<open>CE A3\<close>, the small alpha
  \<open>CE B1\<close>, the small sigma \<open>CF 83\<close> and the small final sigma \<open>CF 82\<close>. The index
  compares strings, splits them at \<open>/\<close>, cuts a final \<open>.md\<close> and concatenates, which the
  encoding of a letter outside ASCII does not alter.
\<close>

definition capitalAlphaSigma :: string where
  "capitalAlphaSigma = [CHR 0xCE, CHR 0x91, CHR 0xCE, CHR 0xA3]"

definition smallAlphaSigma :: string where
  "smallAlphaSigma = [CHR 0xCE, CHR 0xB1, CHR 0xCF, CHR 0x83]"

definition smallAlphaFinalSigma :: string where
  "smallAlphaFinalSigma = [CHR 0xCE, CHR 0xB1, CHR 0xCF, CHR 0x82]"

definition sigmaNote :: note_entry where
  "sigmaNote = \<lparr>path = ''f/'' @ capitalAlphaSigma @ ''.md'', name = capitalAlphaSigma,
                 folder = ''f'', type = ''note'', tags = None\<rparr>"

definition sigmaVault :: app where
  "sigmaVault = initial\<lparr>notes' := [sigmaNote]\<rparr>"

text \<open>The folder scenario of the spec: folders \<open>proj\<close> and \<open>proj/docs\<close>, one note in the
  latter; and the tree built from it.\<close>

definition noteN :: note_entry where
  "noteN = \<lparr>path = ''proj/docs/n.md'', name = ''n'', folder = ''proj/docs'', type = ''note'',
             tags = None\<rparr>"

definition projVault :: app where
  "projVault = initial\<lparr>allFolders := [''proj'', ''proj/docs''], notes' := [noteN]\<rparr>"

definition docsNode :: folder_node where
  "docsNode = FolderNode ''docs'' ''proj/docs'' [] [noteN] (Some 1)"

definition projNode :: folder_node where
  "projNode = FolderNode ''proj'' ''proj'' [(''docs'', docsNode)] [] (Some 1)"

text \<open>The tag scenario of the spec (with an image, which is never a result), and a
  search whose answers arrive in the reverse order of the requests.\<close>

definition noteWork :: note_entry where
  "noteWork = \<lparr>path = ''w.md'', name = ''w'', folder = [], type = ''note'',
               tags = Some [''work'']\<rparr>"

definition noteUrgent :: note_entry where
  "noteUrgent = \<lparr>path = ''u.md'', name = ''u'', folder = [], type = ''note'',
                 tags = Some [''work'', ''urgent'']\<rparr>"

definition tagged :: app where
  "tagged = initial\<lparr>notes' := [noteWork, noteUrgent, imgA], selectedTags := [''work'', ''urgent'']\<rparr>"

definition hitA :: search_result where "hitA = SearchResult ''a.md'' ''alpha''"
definition hitB :: search_result where "hitB = SearchResult ''folder/b.md'' ''beta''"

definition askedAlpha :: app where
  "askedAlpha = fst (applyFilters asciiLowerCase (\<lambda>a b. 0) (vault\<lparr>searchQuery := ''alpha''\<rparr>))"

definition askedBeta :: app where
  "askedBeta = fst (applyFilters asciiLowerCase (\<lambda>a b. 0)
                 (fst (debouncedSearchNotes asciiLowerCase (\<lambda>a b. 0) (askedAlpha\<lparr>searchQuery := ''beta''\<rparr>))))"

definition answeredBeta :: app where
  "answeredBeta = applyFilters_response False (Some [hitB]) askedBeta"

definition answeredAlpha :: app where
  "answeredAlpha = applyFilters_response False (Some [hitA]) answeredBeta"

text \<open>
  What the getter returns when the cache plays no part, and the cache being empty or
  holding what the pipeline gives, under the current lookups, for the text it was filled
  from.
\<close>

definition render :: "(string \<Rightarrow> string) \<Rightarrow> (string \<Rightarrow> string) \<Rightarrow> (string \<Rightarrow> string) \<Rightarrow> app \<Rightarrow> string \<Rightarrow> string" where
  "render toLowerCase encodeSegment toHtml s source =
     (if source = [] then nothingToPreview else renderPipeline toLowerCase encodeSegment toHtml s source)"

definition cacheFresh :: "(string \<Rightarrow> string) \<Rightarrow> (string \<Rightarrow> string) \<Rightarrow> (string \<Rightarrow> string) \<Rightarrow> app \<Rightarrow> bool" where
  "cacheFresh toLowerCase encodeSegment toHtml s =
     (cachedRenderedHTML s = [] \<or>
      cachedRenderedHTML s = renderPipeline toLowerCase encodeSegment toHtml s (lastRenderedContent s))"

text \<open>
  A converter for the examples, in place of \<open>marked.parse\<close> and the DOM round trip: like
  them it gives the empty markup for the empty text.
\<close>

definition sampleConverter :: "string \<Rightarrow> string" where
  "sampleConverter markdown = (if markdown = [] then [] else ''<p>'' @ markdown @ ''</p>'')"

text \<open>A note that is only a frontmatter block, and a note with a link to a section.\<close>

definition frontmatterText :: string where
  "frontmatterText = ''---'' @ [CHR 0x0A] @ ''---''"

definition frontmatterNote :: app where
  "frontmatterNote = initial\<lparr>currentNote := ''a.md'', noteContent := frontmatterText\<rparr>"

definition linked :: app where
  "linked = loadNote ''a.md'' (Ok ''see [[#heading]]'') initial"

definition linkedHtml :: string where
  "linkedHtml = ''<p>see <a href='' @ quoted ''#heading'' @ '' data-wikilink='' @ quoted ''true''
       @ ''>#heading</a></p>''"

section \<open>Strings: facts\<close>

lemma replaceMd_short: "length s < 3 \<Longrightarrow> replaceMd s = s"
proof -
  assume "length s < 3"
  then have "length (rev s) < 3" by simp
  then have "(case rev s of d # m # dot # r \<Rightarrow> (if dot = CHR ''.'' \<and> (m = CHR ''m'' \<or> m = CHR ''M'') \<and> (d = CHR ''d'' \<or> d = CHR ''D'')
          then rev r else s) | _ \<Rightarrow> s) = s"
    by (auto split: list.splits)
  then show ?thesis by (simp add: replaceMd_def)
qed

lemma replaceMd_snoc3:
  "replaceMd (xs @ [a, b, c]) =
     (if a = CHR ''.'' \<and> (b = CHR ''m'' \<or> b = CHR ''M'') \<and> (c = CHR ''d'' \<or> c = CHR ''D'')
      then xs else xs @ [a, b, c])"
  by (simp add: replaceMd_def)

lemma snoc3_exists: "3 \<le> length s \<Longrightarrow> \<exists>xs a b c. s = xs @ [a, b, c]"
proof -
  assume len: "3 \<le> length s"
  obtain ys c where 1: "s = ys @ [c]" using len by (cases s rule: rev_cases) auto
  obtain zs b where 2: "ys = zs @ [b]" using len 1 by (cases ys rule: rev_cases) auto
  obtain xs a where 3: "zs = xs @ [a]" using len 1 2 by (cases zs rule: rev_cases) auto
  show ?thesis using 1 2 3 by simp
qed

lemma caseTable_distinct: "distinct (map fst caseTable)"
  by (simp add: caseTable_def)

lemma toLowerChar_eq_iff:
  assumes "x \<notin> fst ` set caseTable"
  shows "toLowerChar c = x \<longleftrightarrow> c = x \<or> (c, x) \<in> set caseTable"
proof (cases "map_of caseTable c")
  case None
  then have "c \<notin> fst ` set caseTable" by (simp add: map_of_eq_None_iff)
  then have "(c, x) \<notin> set caseTable" by force
  with None show ?thesis by (auto simp: toLowerChar_def)
next
  case (Some l)
  then have in_tab: "(c, l) \<in> set caseTable" by (rule map_of_SomeD)
  then have "c \<in> fst ` set caseTable" by force
  with assms have "c \<noteq> x" by blast
  moreover have "(c, x) \<in> set caseTable \<longleftrightarrow> x = l"
    using in_tab caseTable_distinct Some by (metis map_of_is_SomeI option.inject)
  ultimately show ?thesis using Some by (auto simp: toLowerChar_def)
qed

lemma caseTable_lower_fixed: "\<forall>l \<in> snd ` set caseTable. map_of caseTable l = None"
  by (simp add: caseTable_def)

lemma toLowerChar_idem: "toLowerChar (toLowerChar c) = toLowerChar c"
proof (cases "map_of caseTable c")
  case None
  then show ?thesis by (simp add: toLowerChar_def)
next
  case (Some l)
  then have "(c, l) \<in> set caseTable" by (rule map_of_SomeD)
  then have "l \<in> snd ` set caseTable" by (metis image_eqI snd_conv)
  then have "map_of caseTable l = None"
    by (rule caseTable_lower_fixed [rule_format])
  with Some show ?thesis by (simp add: toLowerChar_def)
qed

lemma toLowerChar_m: "toLowerChar c = CHR ''m'' \<longleftrightarrow> c = CHR ''m'' \<or> c = CHR ''M''"
  by (subst toLowerChar_eq_iff) (auto simp: caseTable_def)

lemma toLowerChar_d: "toLowerChar c = CHR ''d'' \<longleftrightarrow> c = CHR ''d'' \<or> c = CHR ''D''"
  by (subst toLowerChar_eq_iff) (auto simp: caseTable_def)

lemma toLowerChar_dot: "toLowerChar c = CHR ''.'' \<longleftrightarrow> c = CHR ''.''"
  by (subst toLowerChar_eq_iff) (auto simp: caseTable_def)

lemma toLowerChar_range: "toLowerChar c = c \<or> toLowerChar c \<in> snd ` set caseTable"
  unfolding toLowerChar_def
  by (cases "map_of caseTable c") (auto dest!: map_of_SomeD intro: rev_image_eqI)

lemma toLowerChar_not_upper: "toLowerChar c \<noteq> CHR ''M'' \<and> toLowerChar c \<noteq> CHR ''D''"
proof -
  have "CHR ''M'' \<notin> snd ` set caseTable" "CHR ''D'' \<notin> snd ` set caseTable"
    by (simp_all add: caseTable_def)
  moreover have "toLowerChar (CHR ''M'') \<noteq> CHR ''M''" "toLowerChar (CHR ''D'') \<noteq> CHR ''D''"
    by (simp_all add: toLowerChar_def caseTable_def)
  ultimately show ?thesis using toLowerChar_range [of c] by metis
qed

lemma replaceMd_asciiLowerCase: "replaceMd (asciiLowerCase s) = asciiLowerCase (replaceMd s)"
proof (cases "length s < 3")
  case True
  then show ?thesis by (simp add: replaceMd_short asciiLowerCase_def)
next
  case False
  then obtain xs a b c where s_eq: "s = xs @ [a, b, c]"
    using snoc3_exists [of s] by auto
  have low: "asciiLowerCase s = asciiLowerCase xs @ [toLowerChar a, toLowerChar b, toLowerChar c]"
    by (simp add: s_eq asciiLowerCase_def)
  have "replaceMd (asciiLowerCase xs @ [toLowerChar a, toLowerChar b, toLowerChar c]) =
      (if a = CHR ''.'' \<and> (b = CHR ''m'' \<or> b = CHR ''M'') \<and> (c = CHR ''d'' \<or> c = CHR ''D'')
       then asciiLowerCase xs
       else asciiLowerCase xs @ [toLowerChar a, toLowerChar b, toLowerChar c])"
    unfolding replaceMd_snoc3
    using toLowerChar_not_upper [of b] toLowerChar_not_upper [of c]
    by (auto simp: toLowerChar_m toLowerChar_d toLowerChar_dot)
  also have "\<dots> = asciiLowerCase (replaceMd s)"
    by (simp add: s_eq replaceMd_snoc3 asciiLowerCase_def)
  finally show ?thesis by (simp add: low)
qed

section \<open>NoteIndex: facts\<close>

lemma has_upd: "has (m(k \<mapsto> v)) k' \<longleftrightarrow> k' = k \<or> has m k'"
  by (simp add: has_def)

lemma has_empty: "\<not> has Map.empty k"
  by (simp add: has_def)












text \<open>
  On ASCII text lower-casing goes letter by letter: it commutes with appending the suffix
  and is idempotent.
\<close>

lemma asciiLowerCase_suffix: "asciiLowerCase (P @ ''.md'') = asciiLowerCase P @ ''.md''"
  by (simp add: asciiLowerCase_def toLowerChar_def caseTable_def)

lemma asciiLowerCase_idem: "asciiLowerCase (asciiLowerCase s) = asciiLowerCase s"
  by (simp add: asciiLowerCase_def toLowerChar_idem)

text \<open>
  Where the runtime lower-cases by context, the two lower-case path keys need not hold
  the lower-case form of the stripped path. The runtime turns a capital sigma that ends
  a word into the final form of the small letter, and into the other form before \<open>.md\<close>.
  Under every lower-casing function with these values, the collection that holds only
  \<open>sigmaNote\<close> stores the path keys with the small sigma, a target that differs from the
  stripped path in the case of \<open>f\<close> is lower-cased with the final sigma, and the check
  answers false on this case variant of the stripped path.
\<close>

lemma final_sigma_variant:
  assumes "toLowerCase (''f/'' @ capitalAlphaSigma @ ''.md'') = ''f/'' @ smallAlphaSigma @ ''.md''"
    and "toLowerCase capitalAlphaSigma = smallAlphaFinalSigma"
    and "toLowerCase (''F/'' @ capitalAlphaSigma) = ''f/'' @ smallAlphaFinalSigma"
    and "toLowerCase (''f/'' @ capitalAlphaSigma) = ''f/'' @ smallAlphaFinalSigma"
  shows "toLowerCase (''F/'' @ capitalAlphaSigma) = toLowerCase (replaceMd (path sigmaNote)) \<and>
         \<not> wikiLinkExists toLowerCase (buildNoteLookupMaps toLowerCase sigmaVault)
              (''F/'' @ capitalAlphaSigma)"
  using assms
  by (simp add: buildNoteLookupMaps_def registerEntry_def clearedLookup_def wikiLinkExists_def
      has_upd has_empty Let_def replaceMd_def sigmaVault_def sigmaNote_def initial_def
      capitalAlphaSigma_def smallAlphaSigma_def smallAlphaFinalSigma_def)


section \<open>NoteIndex: the claims\<close>







section \<open>History Manager: facts and claims\<close>

lemma commitToHistory_inv: "histInv s \<Longrightarrow> histInv (commitToHistory editor s)"
  by (auto simp: histInv_def commitToHistory_def Let_def)

lemma commitToHistory_max [simp]: "maxHistorySize (commitToHistory editor s) = maxHistorySize s"
  by (simp add: commitToHistory_def Let_def)

lemma flushHistory_inv: "histInv s \<Longrightarrow> histInv (flushHistory editor s)"
  by (simp add: flushHistory_def commitToHistory_inv)

lemma flushHistory_max [simp]: "maxHistorySize (flushHistory editor s) = maxHistorySize s"
  by (simp add: flushHistory_def)

lemma undo_inv: "histInv s \<Longrightarrow> histInv (undo editor s)"
proof -
  assume inv: "histInv s"
  have "histInv (flushHistory editor s)" using inv by (rule flushHistory_inv)
  with inv show ?thesis
    by (auto simp: undo_def Let_def histInv_def)
qed

lemma redo_inv: "histInv s \<Longrightarrow> histInv (redo editor s)"
proof -
  assume inv: "histInv s"
  have "histInv (flushHistory editor s)" using inv by (rule flushHistory_inv)
  with inv show ?thesis
    by (cases "redoHistory (flushHistory editor s)" rule: rev_cases)
       (auto simp: redo_def Let_def histInv_def)
qed

lemma step_inv: "histInv s \<Longrightarrow> histInv (step s x)"
proof (cases x)
  case (RecordEdit t)
  assume "histInv s"
  then show ?thesis
    by (simp add: RecordEdit editContent_def autoSave_def pushToHistory_def histInv_def)
next
  case (Commit e) assume "histInv s" then show ?thesis by (simp add: Commit commitToHistory_inv)
next
  case (SaveTimeout e) assume "histInv s" then show ?thesis
    by (simp add: SaveTimeout saveTimeoutFires_def commitToHistory_inv)
next
  case (Flush e) assume "histInv s" then show ?thesis by (simp add: Flush flushHistory_inv)
next
  case (Undo e) assume "histInv s" then show ?thesis by (simp add: Undo undo_inv)
next
  case (Redo e) assume "histInv s" then show ?thesis by (simp add: Redo redo_inv)
next
  case NextTick assume "histInv s" then show ?thesis by (simp add: NextTick nextTick_def histInv_def)
qed

lemma run_inv: "histInv s \<Longrightarrow> histInv (run s ops)"
  unfolding run_def by (induction ops arbitrary: s) (simp_all add: step_inv)

lemma loadNote_inv: "1 \<le> maxHistorySize s \<Longrightarrow> histInv (loadNote p (Ok t) s)"
  by (simp add: loadNote_def histInv_def)

lemmas eval_history =
  run_def loadNote_def editContent_def autoSave_def pushToHistory_def commitToHistory_def
  saveTimeoutFires_def flushHistory_def undo_def redo_def nextTick_def Let_def
  initial_def MAX_UNDO_HISTORY_def

text \<open>
  C3: after a note is loaded, whatever sequence of edits, commits (direct or by the
  autosave timer), flushes, undos, redos and ticks follows, the undo stack holds at
  least one entry and at most \<open>maxHistorySize\<close> entries. \<open>maxHistorySize\<close> is the
  configured \<open>CONFIG.MAX_UNDO_HISTORY\<close>, which no method changes.
\<close>

theorem C3_undo_stack_bounds:
  assumes "maxHistorySize s = MAX_UNDO_HISTORY"
  shows "1 \<le> length (undoHistory (run (loadNote p (Ok t) s) ops)) \<and>
         length (undoHistory (run (loadNote p (Ok t) s) ops))
           \<le> maxHistorySize (run (loadNote p (Ok t) s) ops)"
proof -
  have "1 \<le> maxHistorySize s" by (simp add: assms MAX_UNDO_HISTORY_def)
  then have "histInv (run (loadNote p (Ok t) s) ops)"
    by (intro run_inv loadNote_inv)
  then show ?thesis by (simp add: histInv_def)
qed

theorem C3_undo_stack_bounds_witness:
  "maxHistorySize initial = MAX_UNDO_HISTORY \<and>
   length (undoHistory (run (loadNote ''a.md'' (Ok ''old'') initial)
     [RecordEdit ''new'', SaveTimeout None, Undo None, Redo None, NextTick])) = 2 \<and>
   1 \<le> length (undoHistory (run (loadNote ''a.md'' (Ok ''old'') initial)
     [RecordEdit ''new'', SaveTimeout None, Undo None, Redo None, NextTick])) \<and>
   length (undoHistory (run (loadNote ''a.md'' (Ok ''old'') initial)
     [RecordEdit ''new'', SaveTimeout None, Undo None, Redo None, NextTick]))
   \<le> maxHistorySize (run (loadNote ''a.md'' (Ok ''old'') initial)
     [RecordEdit ''new'', SaveTimeout None, Undo None, Redo None, NextTick])"
proof -
  have h: "maxHistorySize initial = MAX_UNDO_HISTORY" by (simp add: initial_def)
  have "length (undoHistory (run (loadNote ''a.md'' (Ok ''old'') initial)
     [RecordEdit ''new'', SaveTimeout None, Undo None, Redo None, NextTick])) = 2"
    by (simp add: eval_history)
  then show ?thesis
    using C3_undo_stack_bounds [OF h, of "''a.md''" "''old''"
        "[RecordEdit ''new'', SaveTimeout None, Undo None, Redo None, NextTick]"] h
    by simp
qed

text \<open>
  C4: round trip of one edit. A note (its path is not empty) is loaded with the text
  \<open>C0\<close>, edited to a different text \<open>C1\<close> and committed; then \<open>undo\<close> sets the content
  to \<open>C0\<close> and a following \<open>redo\<close> sets it to \<open>C1\<close>. The commit is
  \<open>commitToHistory\<close>; when no undo or redo is being applied as the edit is made, it may as
  well be the autosave timer, or be left to the flush that \<open>undo\<close> starts with.
\<close>

theorem C4_undo_redo_round_trip:
  assumes "maxHistorySize s = MAX_UNDO_HISTORY" and "p \<noteq> []" and "C1 \<noteq> C0"
  shows "noteContent (undo e2 (commitToHistory e1 (editContent C1 (loadNote p (Ok C0) s)))) = C0 \<and>
         noteContent (redo e3 (undo e2 (commitToHistory e1
             (editContent C1 (loadNote p (Ok C0) s))))) = C1 \<and>
         (\<not> isUndoRedo s \<longrightarrow>
            noteContent (undo e2 (saveTimeoutFires e1 (editContent C1 (loadNote p (Ok C0) s)))) = C0 \<and>
            noteContent (redo e3 (undo e2 (saveTimeoutFires e1
               (editContent C1 (loadNote p (Ok C0) s))))) = C1 \<and>
            noteContent (undo e2 (editContent C1 (loadNote p (Ok C0) s))) = C0 \<and>
            noteContent (redo e3 (undo e2 (editContent C1 (loadNote p (Ok C0) s)))) = C1)"
  using assms
  by (simp add: loadNote_def editContent_def autoSave_def pushToHistory_def commitToHistory_def
      undo_def redo_def flushHistory_def saveTimeoutFires_def Let_def MAX_UNDO_HISTORY_def)
theorem C4_undo_redo_round_trip_witness:
  "maxHistorySize initial = MAX_UNDO_HISTORY \<and> ''a.md'' \<noteq> [] \<and> ''new'' \<noteq> ''old'' \<and>
   \<not> isUndoRedo initial \<and>
   noteContent (undo None (commitToHistory (Some 3) edited)) = ''old'' \<and>
   noteContent (redo None (undo None (commitToHistory (Some 3) edited))) = ''new'' \<and>
   noteContent (undo None (saveTimeoutFires (Some 3) edited)) = ''old'' \<and>
   noteContent (redo None (undo None (saveTimeoutFires (Some 3) edited))) = ''new'' \<and>
   noteContent (undo (Some 3) edited) = ''old'' \<and>
   noteContent (redo None (undo (Some 3) edited)) = ''new''"
proof -
  have h: "maxHistorySize initial = MAX_UNDO_HISTORY" "''a.md'' \<noteq> []" "''new'' \<noteq> ''old''"
    by (simp_all add: initial_def)
  have idle: "\<not> isUndoRedo initial" by (simp add: initial_def)
  show ?thesis
    using C4_undo_redo_round_trip [OF h, of None "Some 3" None]
      C4_undo_redo_round_trip [OF h, of "Some 3" "Some 3" None] h idle
    by (simp add: edited_def opened_def)
qed

text \<open>
  C8: \<open>commitToHistory\<close> always clears the pending flag. When the undo stack has a top
  entry whose content is the current content, both stacks stay as they are. Otherwise
  (the content differs from the top entry, or the stack is empty because no note is open)
  the current content and cursor are pushed, the oldest entry is dropped if the stack
  grew past \<open>maxHistorySize\<close>, and the redo stack is cleared. Either way, a stack that
  was not empty ends with an entry that holds the current content.
\<close>

theorem C8_commit_pushes_only_on_change:
  "hasPendingHistoryChanges (commitToHistory editor s) = False \<and>
   (undoHistory s \<noteq> [] \<and> content (last (undoHistory s)) = noteContent s \<longrightarrow>
      undoHistory (commitToHistory editor s) = undoHistory s \<and>
      redoHistory (commitToHistory editor s) = redoHistory s) \<and>
   (\<not> (undoHistory s \<noteq> [] \<and> content (last (undoHistory s)) = noteContent s) \<longrightarrow>
      redoHistory (commitToHistory editor s) = [] \<and>
      undoHistory (commitToHistory editor s) =
        (let pushed = undoHistory s @ [\<lparr>content = noteContent s,
                 cursorPos = (case editor of Some c \<Rightarrow> c | None \<Rightarrow> 0)\<rparr>]
         in if maxHistorySize s < length pushed then tl pushed else pushed)) \<and>
   (undoHistory s \<noteq> [] \<longrightarrow>
      undoHistory (commitToHistory editor s) \<noteq> [] \<and>
      content (last (undoHistory (commitToHistory editor s))) = noteContent s)"
proof -
  let ?e = "\<lparr>content = noteContent s, cursorPos = (case editor of Some c \<Rightarrow> c | None \<Rightarrow> 0)\<rparr>"
  have top: "tl (undoHistory s @ [?e]) \<noteq> [] \<and> last (tl (undoHistory s @ [?e])) = ?e"
    if "undoHistory s \<noteq> []"
    using that by (cases "undoHistory s") simp_all
  have pending: "hasPendingHistoryChanges (commitToHistory editor s) = False"
    by (simp add: commitToHistory_def Let_def)
  have same: "undoHistory (commitToHistory editor s) = undoHistory s \<and>
      redoHistory (commitToHistory editor s) = redoHistory s"
    if "undoHistory s \<noteq> [] \<and> content (last (undoHistory s)) = noteContent s"
    using that by (simp add: commitToHistory_def Let_def)
  have pushed: "redoHistory (commitToHistory editor s) = [] \<and>
      undoHistory (commitToHistory editor s) =
        (let pushed = undoHistory s @ [?e]
         in if maxHistorySize s < length pushed then tl pushed else pushed)"
    if "\<not> (undoHistory s \<noteq> [] \<and> content (last (undoHistory s)) = noteContent s)"
    using that by (auto simp: commitToHistory_def Let_def)
  have newest: "undoHistory (commitToHistory editor s) \<noteq> [] \<and>
      content (last (undoHistory (commitToHistory editor s))) = noteContent s"
    if "undoHistory s \<noteq> []"
  proof (cases "content (last (undoHistory s)) = noteContent s")
    case True
    with that same show ?thesis by simp
  next
    case False
    with that pushed top show ?thesis by (simp add: Let_def)
  qed
  show ?thesis using pending same pushed newest by blast
qed

theorem C8_commit_witness:
  "undoHistory opened \<noteq> [] \<and> content (last (undoHistory opened)) = noteContent opened \<and>
   undoHistory (commitToHistory None opened) = undoHistory opened \<and>
   redoHistory (commitToHistory None opened) = redoHistory opened \<and>
   \<not> hasPendingHistoryChanges (commitToHistory None opened) \<and>
   content (last (undoHistory edited)) \<noteq> noteContent edited \<and>
   hasPendingHistoryChanges edited \<and>
   undoHistory (commitToHistory (Some 3) edited) =
     [\<lparr>content = ''old'', cursorPos = 0\<rparr>, \<lparr>content = ''new'', cursorPos = 3\<rparr>] \<and>
   redoHistory (commitToHistory (Some 3) edited) = [] \<and>
   \<not> hasPendingHistoryChanges (commitToHistory (Some 3) edited)"
proof -
  have same: "undoHistory opened \<noteq> []" "content (last (undoHistory opened)) = noteContent opened"
    by (simp_all add: opened_def loadNote_def)
  have differs: "content (last (undoHistory edited)) \<noteq> noteContent edited"
    "hasPendingHistoryChanges edited" "maxHistorySize edited = 50"
    "undoHistory edited = [\<lparr>content = ''old'', cursorPos = 0\<rparr>]" "noteContent edited = ''new''"
    by (simp_all add: edited_def opened_def eval_history)
  show ?thesis
    using C8_commit_pushes_only_on_change [of None opened]
      C8_commit_pushes_only_on_change [of "Some 3" edited] same differs
    by (simp add: Let_def)
qed

section \<open>FolderTree Builder: facts and claims\<close>

lemma foldl_count:
  "foldl (\<lambda>total p. total + snd (snd p)) (a::nat) rs = a + sum_list (map (\<lambda>p. snd (snd p)) rs)"
  by (induction rs arbitrary: a) simp_all

lemma calc_children:
  "children (fst (calculateNoteCounts (FolderNode n p cs ns c))) =
     map (\<lambda>(k, child). (k, fst (calculateNoteCounts child))) cs"
  by (simp add: Let_def case_prod_beta comp_def)

lemma calc_notes:
  "node_notes (fst (calculateNoteCounts f)) = node_notes f"
  by (cases f) (simp add: Let_def)

lemma calc_count:
  "noteCount (fst (calculateNoteCounts f)) = Some (snd (calculateNoteCounts f))"
  by (cases f) (simp add: Let_def)

lemma calc_value:
  "snd (calculateNoteCounts (FolderNode n p cs ns c)) =
     length ns + sum_list (map (\<lambda>(k, child). snd (calculateNoteCounts child)) cs)"
  by (simp add: Let_def foldl_count case_prod_unfold comp_def)

lemma calc_cached: "cachedCount (fst (calculateNoteCounts f)) = snd (calculateNoteCounts f)"
  by (simp add: cachedCount_def calc_count)

lemma calc_top_ok: "countOK (fst (calculateNoteCounts f))"
proof (cases f)
  case (FolderNode n p cs ns c)
  show ?thesis
    unfolding countOK_def calc_count FolderNode calc_value calc_children calc_notes
    by (simp add: comp_def case_prod_unfold calc_cached)
qed

lemma calc_all_ok: "g \<in> set (allNodes (fst (calculateNoteCounts f))) \<Longrightarrow> countOK g"
proof (induction f arbitrary: g)
  case (FolderNode n p cs ns c)
  let ?f = "FolderNode n p cs ns c"
  obtain n' p' cs' ns' c' where f': "fst (calculateNoteCounts ?f) = FolderNode n' p' cs' ns' c'"
    by (cases "fst (calculateNoteCounts ?f)") blast
  have cs': "cs' = map (\<lambda>(k, child). (k, fst (calculateNoteCounts child))) cs"
    using calc_children [of n p cs ns c] f' by simp
  from FolderNode.prems have "g = fst (calculateNoteCounts ?f) \<or>
      (\<exists>(k, child) \<in> set cs. g \<in> set (allNodes (fst (calculateNoteCounts child))))"
    unfolding f' by (auto simp: cs')
  then show ?case
  proof
    assume "g = fst (calculateNoteCounts ?f)"
    then show ?thesis by (simp only: calc_top_ok)
  next
    assume "\<exists>(k, child) \<in> set cs. g \<in> set (allNodes (fst (calculateNoteCounts child)))"
    then obtain k child where "(k, child) \<in> set cs"
      and "g \<in> set (allNodes (fst (calculateNoteCounts child)))" by auto
    then show ?thesis using FolderNode.IH [of "(k, child)" child g] by simp
  qed
qed

lemma allNodes_self: "f \<in> set (allNodes f)"
  by (cases f) simp

lemma allNodes_child:
  "g \<in> set (allNodes f) \<Longrightarrow> (k, child) \<in> set (children g) \<Longrightarrow> child \<in> set (allNodes f)"
proof (induction f arbitrary: g)
  case (FolderNode n p cs ns c)
  from FolderNode.prems(1) have "g = FolderNode n p cs ns c \<or>
      (\<exists>(k', ch) \<in> set cs. g \<in> set (allNodes ch))"
    by auto
  then show ?case
  proof
    assume "g = FolderNode n p cs ns c"
    then have "(k, child) \<in> set cs" using FolderNode.prems(2) by simp
    then show ?thesis using allNodes_self [of child] by auto
  next
    assume "\<exists>(k', ch) \<in> set cs. g \<in> set (allNodes ch)"
    then obtain k' ch where in_cs: "(k', ch) \<in> set cs" and "g \<in> set (allNodes ch)" by auto
    then have "child \<in> set (allNodes ch)"
      using FolderNode.IH [of "(k', ch)" ch g] FolderNode.prems(2) by simp
    then show ?thesis using in_cs by auto
  qed
qed

lemma countNotes_unfold:
  "countNotes (FolderNode n p cs ns c) =
     length ns + sum_list (map (\<lambda>(k, child). countNotes child) cs)"
proof -
  have "length (concat (map node_notes (concat (map (\<lambda>(k, child). allNodes child) cs)))) =
        sum_list (map (\<lambda>(k, child). countNotes child) cs)"
    by (induction cs) (auto simp: countNotes_def)
  then show ?thesis by (simp add: countNotes_def)
qed

lemma countOK_brute:
  "(\<And>g. g \<in> set (allNodes f) \<Longrightarrow> countOK g) \<Longrightarrow> cachedCount f = countNotes f"
proof (induction f)
  case (FolderNode n p cs ns c)
  have kids: "cachedCount child = countNotes child" if "(k, child) \<in> set cs" for k child
  proof (rule FolderNode.IH [of "(k, child)" child])
    show "(k, child) \<in> set cs" by (rule that)
    show "child \<in> Basic_BNFs.snds (k, child)" by simp
    fix g assume "g \<in> set (allNodes child)"
    then have "g \<in> set (allNodes (FolderNode n p cs ns c))" using that by auto
    then show "countOK g" by (rule FolderNode.prems)
  qed
  have "countOK (FolderNode n p cs ns c)"
    by (rule FolderNode.prems) simp
  then have "cachedCount (FolderNode n p cs ns c) =
      length ns + sum_list (map (\<lambda>(k, child). cachedCount child) cs)"
    by (simp add: countOK_def cachedCount_def)
  also have "map (\<lambda>(k, child). cachedCount child) cs = map (\<lambda>(k, child). countNotes child) cs"
    using kids by (auto intro!: map_cong)
  finally show ?case by (simp add: countNotes_unfold)
qed

lemma allNodes_trans:
  "g \<in> set (allNodes f) \<Longrightarrow> f \<in> set (allNodes r) \<Longrightarrow> g \<in> set (allNodes r)"
proof (induction r arbitrary: f g)
  case (FolderNode n p cs ns c)
  from FolderNode.prems(2) have "f = FolderNode n p cs ns c \<or>
      (\<exists>(k, ch) \<in> set cs. f \<in> set (allNodes ch))"
    by auto
  then show ?case
  proof
    assume "f = FolderNode n p cs ns c"
    then show ?thesis using FolderNode.prems(1) by simp
  next
    assume "\<exists>(k, ch) \<in> set cs. f \<in> set (allNodes ch)"
    then obtain k ch where in_cs: "(k, ch) \<in> set cs" and "f \<in> set (allNodes ch)" by auto
    then have "g \<in> set (allNodes ch)"
      using FolderNode.IH [of "(k, ch)" ch g f] FolderNode.prems(1) by simp
    then show ?thesis using in_cs by auto
  qed
qed

lemma treeNodes_counted:
  assumes "f \<in> set (treeNodes (map (\<lambda>(k, node). (k, fst (calculateNoteCounts node))) tree))"
  shows "countOK f"
    and "(k, child) \<in> set (children f) \<Longrightarrow> countOK child"
    and "cachedCount f = countNotes f"
proof -
  from assms obtain k' node where "(k', node) \<in> set tree"
    and f_in: "f \<in> set (allNodes (fst (calculateNoteCounts node)))"
    by (auto simp: treeNodes_def)
  show "countOK f" using f_in by (rule calc_all_ok)
  show "countOK child" if "(k, child) \<in> set (children f)"
    using allNodes_child [OF f_in that] by (rule calc_all_ok)
  show "cachedCount f = countNotes f"
  proof (rule countOK_brute)
    fix g assume "g \<in> set (allNodes f)"
    then have "g \<in> set (allNodes (fst (calculateNoteCounts node)))"
      using f_in by (rule allNodes_trans)
    then show "countOK g" by (rule calc_all_ok)
  qed
qed

lemma buildTree_counted:
  assumes "buildTree toLowerCase localeCompare folders entries = Inr tree"
  shows "\<exists>t. tree = map (\<lambda>(k, node). (k, fst (calculateNoteCounts node))) t"
proof -
  from assms obtain withNotes where
    "tree = map (\<lambda>(k, node). (k, fst (calculateNoteCounts node)))
              (map (\<lambda>(k, node). (k, sortNotes toLowerCase localeCompare node))
                 (sortRoot toLowerCase localeCompare withNotes))"
    by (auto simp: buildTree_def simp del: map_map split: sum.splits)
  then show ?thesis by blast
qed

lemma countOK_Some: "countOK f \<Longrightarrow> noteCount f \<noteq> None"
  by (simp add: countOK_def)

lemma getProp_not_inherited: "k \<notin> set objectPrototypeKeys \<Longrightarrow> getProp obj k \<noteq> Inherited"
  by (simp add: getProp_def split: option.splits)

lemma addFolderParts_total:
  "set parts \<inter> set objectPrototypeKeys = {} \<Longrightarrow> \<exists>t. addFolderParts walked parts current = Inr t"
proof (induction parts arbitrary: walked current)
  case Nil
  then show ?case by simp
next
  case (Cons part rest)
  then have ok: "\<And>w c. \<exists>t. addFolderParts w rest c = Inr t" by simp
  from Cons.prems have "getProp current part \<noteq> Inherited"
    by (simp add: getProp_not_inherited)
  then show ?case
  proof (cases "getProp current part")
    case (Own node)
    obtain t where "addFolderParts (walked @ [part]) rest (children node) = Inr t"
      using ok by blast
    with Own show ?thesis by (simp add: Let_def)
  next
    case Undefined
    obtain t where "addFolderParts (walked @ [part]) rest [] = Inr t"
      using ok by blast
    with Undefined show ?thesis by (simp add: Let_def)
  qed simp
qed

lemma addNoteParts_total:
  "set parts \<inter> set objectPrototypeKeys = {} \<Longrightarrow> \<exists>t. addNoteParts note walked parts current = Inr t"
proof (induction parts arbitrary: walked current)
  case Nil
  then show ?case by simp
next
  case (Cons part rest)
  then have ok: "\<And>w c. \<exists>t. addNoteParts note w rest c = Inr t" by simp
  from Cons.prems have "getProp current part \<noteq> Inherited"
    by (simp add: getProp_not_inherited)
  then show ?case
  proof (cases "getProp current part")
    case (Own node)
    obtain t where "addNoteParts note (walked @ [part]) rest (children node) = Inr t"
      using ok by blast
    with Own show ?thesis by (simp add: Let_def)
  next
    case Undefined
    obtain t where "addNoteParts note (walked @ [part]) rest [] = Inr t"
      using ok by blast
    with Undefined show ?thesis by (simp add: Let_def)
  qed simp
qed

lemma forEach_total:
  "(\<And>x s. x \<in> set xs \<Longrightarrow> \<exists>s'. f s x = Inr s') \<Longrightarrow> \<exists>s'. forEach f s xs = Inr s'"
proof (induction xs arbitrary: s)
  case Nil
  then show ?case by simp
next
  case (Cons x xs)
  obtain s1 where "f s x = Inr s1" using Cons.prems [of x s] by auto
  moreover obtain s2 where "forEach f s1 xs = Inr s2"
    using Cons.IH [of s1] Cons.prems by auto
  ultimately show ?case by simp
qed

lemma addNote_total:
  "set (split CHR ''/'' (folder note)) \<inter> set objectPrototypeKeys = {} \<Longrightarrow>
     \<exists>t. addNote tree note = Inr t"
proof (cases "folder note = []")
  case True
  have "getProp tree ''__root__'' \<noteq> Inherited"
    by (rule getProp_not_inherited) (simp add: objectPrototypeKeys_def)
  then show ?thesis using True
    by (cases "getProp tree ''__root__''") (simp_all add: addNote_def)
next
  case False
  assume "set (split CHR ''/'' (folder note)) \<inter> set objectPrototypeKeys = {}"
  then show ?thesis using False addNoteParts_total by (simp add: addNote_def)
qed

lemma buildFolderTree_total:
  assumes "\<forall>p \<in> set (allFolders s). set (split CHR ''/'' p) \<inter> set objectPrototypeKeys = {}"
    and "\<forall>n \<in> set (notes' s). set (split CHR ''/'' (folder n)) \<inter> set objectPrototypeKeys = {}"
  shows "\<exists>s'. buildFolderTree toLowerCase localeCompare s = Inr s'"
proof -
  obtain t1 where t1: "forEach addFolder [] (allFolders s) = Inr t1"
    using forEach_total [of "allFolders s" addFolder "[]"] assms(1) addFolderParts_total
    by (metis addFolder_def)
  obtain t2 where t2: "forEach addNote t1 (notes' s) = Inr t2"
    using forEach_total [of "notes' s" addNote t1] assms(2) addNote_total by metis
  show ?thesis by (simp add: buildFolderTree_def buildTree_def t1 t2)
qed

text \<open>
  C2: whenever \<open>buildFolderTree\<close> produces a tree (it throws when a path segment names a
  property of \<open>Object.prototype\<close>, and produces one otherwise: \<open>buildFolderTree_total\<close>),
  every folder node \<open>f\<close> of the tree, at any depth, has a cached \<open>noteCount\<close> equal to
  the number of entries in \<open>f.notes\<close> plus the sum of the cached counts of the children of
  \<open>f\<close>, every child has a cached count, and the cached count of \<open>f\<close> is the
  brute-force count of the notes in its subtree.
\<close>

theorem C2_noteCount_invariant:
  assumes "buildFolderTree toLowerCase localeCompare s = Inr s'"
    and "f \<in> set (treeNodes (folderTree s'))"
  shows "noteCount f =
           Some (length (node_notes f) +
                 sum_list (map (\<lambda>(k, child). cachedCount child) (children f))) \<and>
         (\<forall>(k, child) \<in> set (children f). noteCount child \<noteq> None) \<and>
         cachedCount f = countNotes f"
proof -
  from assms(1) obtain tree where built: "buildTree toLowerCase localeCompare (allFolders s) (notes' s) = Inr tree"
    and s': "s' = s\<lparr>folderTree := tree\<rparr>"
    by (auto simp: buildFolderTree_def split: sum.splits)
  from buildTree_counted [OF built] obtain t where
    tree: "tree = map (\<lambda>(k, node). (k, fst (calculateNoteCounts node))) t" by blast
  have f_in: "f \<in> set (treeNodes (map (\<lambda>(k, node). (k, fst (calculateNoteCounts node))) t))"
    using assms(2) by (simp add: s' tree)
  have "countOK f" using f_in by (rule treeNodes_counted(1))
  moreover have "\<forall>(k, child) \<in> set (children f). noteCount child \<noteq> None"
    using treeNodes_counted(2) [OF f_in] countOK_Some by blast
  moreover have "cachedCount f = countNotes f" using f_in by (rule treeNodes_counted(3))
  ultimately show ?thesis by (simp add: countOK_def)
qed

lemma projVault_tree:
  "buildFolderTree asciiLowerCase (\<lambda>a b. 0) projVault = Inr (projVault\<lparr>folderTree := [(''proj'', projNode)]\<rparr>)"
  by (simp add: buildFolderTree_def buildTree_def projVault_def initial_def addFolder_def
      addNote_def noteN_def getProp_def objectPrototypeKeys_def sortRoot_def sortArray_def
      compareNames_def AList.update_def projNode_def docsNode_def Let_def)

theorem C2_witness:
  "buildFolderTree asciiLowerCase (\<lambda>a b. 0) projVault = Inr (projVault\<lparr>folderTree := [(''proj'', projNode)]\<rparr>) \<and>
   projNode \<in> set (treeNodes (folderTree (projVault\<lparr>folderTree := [(''proj'', projNode)]\<rparr>))) \<and>
   noteCount projNode = Some 1 \<and> noteCount docsNode = Some 1 \<and>
   noteCount projNode = Some (length (node_notes projNode) + cachedCount docsNode) \<and>
   cachedCount projNode = countNotes projNode"
proof -
  have h: "projNode \<in> set (treeNodes (folderTree (projVault\<lparr>folderTree := [(''proj'', projNode)]\<rparr>)))"
    by (simp add: treeNodes_def projNode_def)
  show ?thesis
    using C2_noteCount_invariant [OF projVault_tree h] projVault_tree h
    by (simp add: projNode_def docsNode_def cachedCount_def)
qed


section \<open>Filter Engine: facts and claims\<close>

lemma noteMatchesTags_superset:
  "selectedTags s \<noteq> [] \<Longrightarrow> noteMatchesTags s note \<longleftrightarrow> set (selectedTags s) \<subseteq> set (tagsOf note)"
  by (cases "selectedTags s")
     (auto simp: noteMatchesTags_def tagsOf_def list_all_iff split: option.splits)

lemma noteMatchesTags_searchQuery:
  "noteMatchesTags (s\<lparr>searchQuery := q\<rparr>) = noteMatchesTags s"
  by (rule ext) (simp add: noteMatchesTags_def split: option.splits)

lemmas eval_filter = askedAlpha_def askedBeta_def answeredBeta_def answeredAlpha_def
  applyFilters_def applyFilters_response_def debouncedSearchNotes_def hasTextSearch_def
  hasTagFilter_def trim_def isWhiteSpace_def vault_def initial_def Let_def

text \<open>
  C9: with tags selected and no search text (the query is empty after trimming),
  \<open>applyFilters\<close> finishes synchronously and \<open>searchResults\<close> is the flat list of exactly
  the entries of type \<open>note\<close> whose tag set contains every selected tag, in the order of
  the collection.
\<close>

theorem C9_tags_only_filter:
  assumes "selectedTags s \<noteq> []" and "trim (searchQuery s) = []"
  shows "snd (applyFilters toLowerCase localeCompare s) = Done \<and>
         searchResults (fst (applyFilters toLowerCase localeCompare s)) =
           map NoteItem
             (filter (\<lambda>note. type note = ''note'' \<and> set (selectedTags s) \<subseteq> set (tagsOf note))
                (notes' s))"
  using assms
  by (simp add: applyFilters_def hasTextSearch_def hasTagFilter_def noteMatchesTags_superset)

theorem C9_tags_only_witness:
  "selectedTags tagged \<noteq> [] \<and> trim (searchQuery tagged) = [] \<and>
   snd (applyFilters asciiLowerCase (\<lambda>a b. 0) tagged) = Done \<and>
   searchResults (fst (applyFilters asciiLowerCase (\<lambda>a b. 0) tagged)) = [NoteItem noteUrgent]"
proof -
  have h: "selectedTags tagged \<noteq> []" "trim (searchQuery tagged) = []"
    by (simp_all add: tagged_def initial_def trim_def)
  show ?thesis
    using C9_tags_only_filter [OF h, of asciiLowerCase "\<lambda>a b. 0"] h
    by (simp add: tagged_def initial_def noteWork_def noteUrgent_def imgA_def tagsOf_def)
qed

text \<open>
  C5, as the spec states it, fails: \<open>applyFilters\<close> never compares the query a response
  answers with the current query. A search for \<open>alpha\<close> is sent, the query changes to
  \<open>beta\<close> and that search is sent and answered; when the answer for \<open>alpha\<close> arrives
  afterwards, it replaces the results of \<open>beta\<close> although the query is still \<open>beta\<close>.
\<close>

theorem C5_stale_response_counterexample:
  "snd (applyFilters asciiLowerCase (\<lambda>a b. 0) (vault\<lparr>searchQuery := ''alpha''\<rparr>)) = Awaiting ''alpha'' False \<and>
   snd (applyFilters asciiLowerCase (\<lambda>a b. 0)
          (fst (debouncedSearchNotes asciiLowerCase (\<lambda>a b. 0) (askedAlpha\<lparr>searchQuery := ''beta''\<rparr>))))
     = Awaiting ''beta'' False \<and>
   searchQuery answeredBeta = ''beta'' \<and> searchResults answeredBeta = [SearchItem hitB] \<and>
   searchQuery answeredAlpha = ''beta'' \<and> searchResults answeredAlpha = [SearchItem hitA]"
  by (simp add: eval_filter)

text \<open>
  C5 (amended): a search response is applied on arrival whatever the current query is:
  \<open>searchResults\<close> becomes the results of the response (filtered by the selected tags when
  tags were selected as the request was made), so the response that arrives last decides
  what is shown.
\<close>

theorem C5_response_always_applied:
  "searchResults (applyFilters_response False (Some dataResults) s) = map SearchItem dataResults \<and>
   searchResults (applyFilters_response True (Some dataResults) s) =
     map SearchItem
       (filter (\<lambda>result. case find (\<lambda>n. path n = result_path result) (notes' s) of
                            Some note \<Rightarrow> noteMatchesTags s note | None \<Rightarrow> False) dataResults) \<and>
   searchResults (applyFilters_response tagFilter (Some dataResults) (s\<lparr>searchQuery := q\<rparr>)) =
     searchResults (applyFilters_response tagFilter (Some dataResults) s)"
  by (simp add: applyFilters_response_def Let_def noteMatchesTags_searchQuery
      cong: option.case_cong)

section \<open>Content Renderer: facts and claims\<close>

lemma wikiLinkExists_index:
  "noteLookup s = noteLookup s' \<Longrightarrow> wikiLinkExists toLowerCase s = wikiLinkExists toLowerCase s'"
  by (rule ext) (simp add: wikiLinkExists_def)

lemma resolveMediaWikilink_index:
  "mediaLookup s = mediaLookup s' \<Longrightarrow> resolveMediaWikilink toLowerCase s = resolveMediaWikilink toLowerCase s'"
  by (rule ext) (simp add: resolveMediaWikilink_def)

lemma noteLink_index: "noteLookup s = noteLookup s' \<Longrightarrow> noteLink toLowerCase s = noteLink toLowerCase s'"
  by (rule ext, rule ext) (simp add: noteLink_def wikiLinkExists_index [of s s'])

lemma mediaEmbed_index:
  "mediaLookup s = mediaLookup s' \<Longrightarrow> mediaEmbed toLowerCase enc s = mediaEmbed toLowerCase enc s'"
  by (rule ext, rule ext) (simp add: mediaEmbed_def resolveMediaWikilink_index [of s s'])

lemma expandLinks_index:
  "noteLookup s = noteLookup s' \<Longrightarrow> mediaLookup s = mediaLookup s' \<Longrightarrow>
     expandLinks toLowerCase enc s = expandLinks toLowerCase enc s'"
  by (rule ext) (simp add: expandLinks_def noteLink_index [of s s'] mediaEmbed_index [of s s'])

lemma renderPipeline_index:
  "noteLookup s = noteLookup s' \<Longrightarrow> mediaLookup s = mediaLookup s' \<Longrightarrow>
     renderPipeline toLowerCase enc conv s source = renderPipeline toLowerCase enc conv s' source"
  by (simp add: renderPipeline_def expandLinks_index [of s s'])

lemma renderPipeline_cache:
  "renderPipeline toLowerCase enc conv (s\<lparr>lastRenderedContent := a, cachedRenderedHTML := b\<rparr>) source =
     renderPipeline toLowerCase enc conv s source"
  by (rule renderPipeline_index) simp_all

lemma render_twice:
  "renderedMarkdown toLowerCase enc conv (snd (renderedMarkdown toLowerCase enc conv s)) = renderedMarkdown toLowerCase enc conv s"
  by (simp add: renderedMarkdown_def Let_def renderPipeline_cache)

lemma render_hit:
  assumes "noteContent s \<noteq> []" and "fst (renderedMarkdown toLowerCase enc conv s) \<noteq> []"
  shows "renderedMarkdown toLowerCase' enc' conv' (snd (renderedMarkdown toLowerCase enc conv s)) =
           (fst (renderedMarkdown toLowerCase enc conv s), snd (renderedMarkdown toLowerCase enc conv s))"
    and "cachedRenderedHTML (snd (renderedMarkdown toLowerCase enc conv s)) = fst (renderedMarkdown toLowerCase enc conv s)"
proof -
  show "renderedMarkdown toLowerCase' enc' conv' (snd (renderedMarkdown toLowerCase enc conv s)) =
           (fst (renderedMarkdown toLowerCase enc conv s), snd (renderedMarkdown toLowerCase enc conv s))"
  proof (cases "noteContent s = lastRenderedContent s \<and> cachedRenderedHTML s \<noteq> []")
    case True
    with assms(1) show ?thesis by (simp add: renderedMarkdown_def)
  next
    case False
    with assms have "renderPipeline toLowerCase enc conv s (noteContent s) \<noteq> []"
      by (simp add: renderedMarkdown_def Let_def)
    with False assms(1) show ?thesis by (auto simp: renderedMarkdown_def Let_def)
  qed
  show "cachedRenderedHTML (snd (renderedMarkdown toLowerCase enc conv s)) = fst (renderedMarkdown toLowerCase enc conv s)"
  proof (cases "noteContent s = lastRenderedContent s \<and> cachedRenderedHTML s \<noteq> []")
    case True
    with assms(1) show ?thesis by (simp add: renderedMarkdown_def)
  next
    case False
    with assms(1) show ?thesis by (simp add: renderedMarkdown_def Let_def)
  qed
qed

lemma render_fresh:
  assumes "cacheFresh toLowerCase enc conv s"
  shows "fst (renderedMarkdown toLowerCase enc conv s) = render toLowerCase enc conv s (noteContent s)"
    and "cacheFresh toLowerCase enc conv (snd (renderedMarkdown toLowerCase enc conv s))"
  using assms
  by (auto simp: renderedMarkdown_def Let_def cacheFresh_def render_def renderPipeline_cache)

text \<open>
  An empty text returns the placeholder and leaves the state, the cache slot included,
  as it is.
\<close>

lemma render_empty:
  "noteContent s = [] \<Longrightarrow> renderedMarkdown toLowerCase enc conv s = (nothingToPreview, s)"
  by (simp add: renderedMarkdown_def)

lemma stripFrontmatter_only: "stripFrontmatter frontmatterText = []"
  by (simp add: frontmatterText_def stripFrontmatter_def trim_def isWhiteSpace_def startsWith_def)

lemma expandLinks_frontmatterText: "expandLinks toLowerCase enc s frontmatterText = []"
  by (simp add: expandLinks_def stripFrontmatter_only)

lemma frontmatterText_not_empty: "frontmatterText \<noteq> []"
  by (simp add: frontmatterText_def)

lemma linked_fields:
  "noteContent linked = ''see [[#heading]]''" "lastRenderedContent linked = []"
  "cachedRenderedHTML linked = []"
  by (simp_all add: linked_def loadNote_def)

lemma linked_pipeline:
  "renderPipeline asciiLowerCase id sampleConverter linked ''see [[#heading]]'' = linkedHtml"
  by code_simp

lemma linked_first:
  "renderedMarkdown asciiLowerCase id sampleConverter linked =
     (linkedHtml, linked\<lparr>lastRenderedContent := ''see [[#heading]]'', cachedRenderedHTML := linkedHtml\<rparr>)"
  by (simp add: renderedMarkdown_def linked_fields linked_pipeline Let_def)

lemma linkedHtml_not_empty: "linkedHtml \<noteq> []"
  by (simp add: linkedHtml_def)

text \<open>
  C7, as the spec states it, fails where the cache is not used. An empty text returns
  the fixed placeholder and never touches the cache slot, which stays empty. A text whose
  rendered markup is empty (here a note that is only a frontmatter block, with a converter
  that, as \<open>marked.parse\<close> does, turns the empty text into the empty markup) is stored with
  an empty \<open>_cachedRenderedHTML\<close>, which the test of line 4012 treats as no cache: the
  second call runs the pipeline again, so its result is whatever the converter it is
  given then returns.
\<close>

theorem C7_counterexample:
  "fst (renderedMarkdown asciiLowerCase id sampleConverter initial) = nothingToPreview \<and>
   cachedRenderedHTML (snd (renderedMarkdown asciiLowerCase id sampleConverter initial)) = [] \<and>
   noteContent frontmatterNote \<noteq> [] \<and>
   fst (renderedMarkdown asciiLowerCase id sampleConverter frontmatterNote) = [] \<and>
   lastRenderedContent (snd (renderedMarkdown asciiLowerCase id sampleConverter frontmatterNote)) =
     noteContent frontmatterNote \<and>
   fst (renderedMarkdown asciiLowerCase id (\<lambda>markdown. ''again'')
          (snd (renderedMarkdown asciiLowerCase id sampleConverter frontmatterNote))) = ''again''"
proof -
  have init: "renderedMarkdown asciiLowerCase id sampleConverter initial = (nothingToPreview, initial)"
    by (simp add: renderedMarkdown_def initial_def)
  have fields: "noteContent frontmatterNote = frontmatterText"
    "lastRenderedContent frontmatterNote = []" "cachedRenderedHTML frontmatterNote = []"
    by (simp_all add: frontmatterNote_def initial_def)
  have first: "renderedMarkdown asciiLowerCase id sampleConverter frontmatterNote =
      ([], frontmatterNote\<lparr>lastRenderedContent := frontmatterText, cachedRenderedHTML := []\<rparr>)"
    by (simp add: renderedMarkdown_def renderPipeline_def Let_def fields
        expandLinks_frontmatterText sampleConverter_def frontmatterText_not_empty)
  have second: "fst (renderedMarkdown asciiLowerCase id (\<lambda>markdown. ''again'')
      (frontmatterNote\<lparr>lastRenderedContent := frontmatterText, cachedRenderedHTML := []\<rparr>))
      = ''again''"
    by (simp add: renderedMarkdown_def renderPipeline_def Let_def fields frontmatterText_not_empty)
  show ?thesis
    unfolding init first using second
    by (simp add: fields frontmatterText_not_empty initial_def)
qed

text \<open>
  C7 (amended): rendering the same text twice with no intervening change returns the
  identical output and the identical state. When the text and the first output are not
  empty, the second call returns the value of the single-slot cache without running the
  pipeline (whatever converter, encoder and lower-casing function it is given). For a cache that is empty or
  was filled under the current NoteIndex, the output is \<open>render\<close> of the text, and
  \<open>render\<close> depends on the state through the note and media lookups only.
\<close>

theorem C7_render_cache:
  "renderedMarkdown toLowerCase enc conv (snd (renderedMarkdown toLowerCase enc conv s)) = renderedMarkdown toLowerCase enc conv s \<and>
   (noteContent s \<noteq> [] \<and> fst (renderedMarkdown toLowerCase enc conv s) \<noteq> [] \<longrightarrow>
      cachedRenderedHTML (snd (renderedMarkdown toLowerCase enc conv s)) = fst (renderedMarkdown toLowerCase enc conv s) \<and>
      (\<forall>toLowerCase' enc' conv'. renderedMarkdown toLowerCase' enc' conv' (snd (renderedMarkdown toLowerCase enc conv s)) =
         (fst (renderedMarkdown toLowerCase enc conv s), snd (renderedMarkdown toLowerCase enc conv s)))) \<and>
   (cacheFresh toLowerCase enc conv s \<longrightarrow>
      fst (renderedMarkdown toLowerCase enc conv s) = render toLowerCase enc conv s (noteContent s) \<and>
      cacheFresh toLowerCase enc conv (snd (renderedMarkdown toLowerCase enc conv s))) \<and>
   (\<forall>s'. noteLookup s' = noteLookup s \<and> mediaLookup s' = mediaLookup s \<longrightarrow>
      render toLowerCase enc conv s' = render toLowerCase enc conv s)"
proof -
  have "render toLowerCase enc conv s' = render toLowerCase enc conv s"
    if "noteLookup s' = noteLookup s \<and> mediaLookup s' = mediaLookup s" for s'
    using that by (intro ext) (simp add: render_def renderPipeline_index [of s' s])
  then have index: "\<forall>s'. noteLookup s' = noteLookup s \<and> mediaLookup s' = mediaLookup s \<longrightarrow>
      render toLowerCase enc conv s' = render toLowerCase enc conv s" by blast
  have hit: "noteContent s \<noteq> [] \<and> fst (renderedMarkdown toLowerCase enc conv s) \<noteq> [] \<longrightarrow>
      cachedRenderedHTML (snd (renderedMarkdown toLowerCase enc conv s)) = fst (renderedMarkdown toLowerCase enc conv s) \<and>
      (\<forall>toLowerCase' enc' conv'. renderedMarkdown toLowerCase' enc' conv' (snd (renderedMarkdown toLowerCase enc conv s)) =
         (fst (renderedMarkdown toLowerCase enc conv s), snd (renderedMarkdown toLowerCase enc conv s)))"
    using render_hit [of s toLowerCase enc conv] by simp
  have fresh: "cacheFresh toLowerCase enc conv s \<longrightarrow>
      fst (renderedMarkdown toLowerCase enc conv s) = render toLowerCase enc conv s (noteContent s) \<and>
      cacheFresh toLowerCase enc conv (snd (renderedMarkdown toLowerCase enc conv s))"
    using render_fresh [of toLowerCase enc conv s] by simp
  show ?thesis
    by (intro conjI render_twice hit fresh index)
qed

theorem C7_render_cache_witness:
  "noteContent linked \<noteq> [] \<and> cacheFresh asciiLowerCase id sampleConverter linked \<and>
   fst (renderedMarkdown asciiLowerCase id sampleConverter linked) = linkedHtml \<and> linkedHtml \<noteq> [] \<and>
   renderedMarkdown asciiLowerCase id sampleConverter (snd (renderedMarkdown asciiLowerCase id sampleConverter linked)) =
     renderedMarkdown asciiLowerCase id sampleConverter linked \<and>
   renderedMarkdown id asciiLowerCase (\<lambda>markdown. ''again'')
       (snd (renderedMarkdown asciiLowerCase id sampleConverter linked)) =
     (linkedHtml, snd (renderedMarkdown asciiLowerCase id sampleConverter linked)) \<and>
   linkedHtml = render asciiLowerCase id sampleConverter linked (noteContent linked)"
proof -
  have h: "noteContent linked \<noteq> []" "fst (renderedMarkdown asciiLowerCase id sampleConverter linked) \<noteq> []"
    "cacheFresh asciiLowerCase id sampleConverter linked"
    by (simp_all add: linked_fields linked_first linkedHtml_not_empty cacheFresh_def)
  note c7 = C7_render_cache [of asciiLowerCase id sampleConverter linked]
  have twice: "renderedMarkdown asciiLowerCase id sampleConverter (snd (renderedMarkdown asciiLowerCase id sampleConverter linked)) =
     renderedMarkdown asciiLowerCase id sampleConverter linked"
    using c7 by (rule conjunct1)
  have hit: "renderedMarkdown id asciiLowerCase (\<lambda>markdown. ''again'')
       (snd (renderedMarkdown asciiLowerCase id sampleConverter linked)) =
     (fst (renderedMarkdown asciiLowerCase id sampleConverter linked), snd (renderedMarkdown asciiLowerCase id sampleConverter linked))"
    using c7 [THEN conjunct2, THEN conjunct1] h(1,2) by blast
  have fresh: "fst (renderedMarkdown asciiLowerCase id sampleConverter linked) =
      render asciiLowerCase id sampleConverter linked (noteContent linked)"
    using c7 [THEN conjunct2, THEN conjunct2, THEN conjunct1] h(3) by blast
  show ?thesis
    using h(1,3) twice hit fresh linkedHtml_not_empty by (simp add: linked_first)
qed

lemma dropWhile_snoc: "\<not> P y \<Longrightarrow> dropWhile P (xs @ [y]) = dropWhile P xs @ [y]"
  by (induction xs) auto

lemma trim_keeps_hash:
  assumes "startsWith target ''#''"
  shows "startsWith (trim target) ''#''"
proof -
  from assms obtain rest where t: "target = CHR ''#'' # rest"
    by (cases target) (auto simp: startsWith_def)
  have nws: "\<not> isWhiteSpace CHR ''#''" by (simp add: isWhiteSpace_def)
  have "dropWhile isWhiteSpace (rev rest @ [CHR ''#'']) =
          dropWhile isWhiteSpace (rev rest) @ [CHR ''#'']"
    using nws by (rule dropWhile_snoc)
  then show ?thesis using nws by (simp add: t trim_def startsWith_def)
qed

text \<open>
  C10: for a note wikilink whose target begins with \<open>#\<close> (as written, or once trimmed)
  the base path is empty, so whatever the NoteIndex holds the emitted link carries no
  \<open>wikilink-broken\<close> class; its address is the whole trimmed target, anchor included,
  with double quotes written \<open>%22\<close> (so the trimmed target itself when there is none).
\<close>

theorem C10_anchor_link_never_broken:
  assumes "startsWith target ''#'' \<or> startsWith (trim target) ''#''"
  shows "noteLink toLowerCase s target displayText =
           ''<a href='' @ quoted (replaceChar dq ''%22'' (trim target))
           @ '' data-wikilink='' @ quoted ''true'' @ ''>''
           @ escapeHtml (case displayText of
                           Some d \<Rightarrow> if d \<noteq> [] then trim d else trim target
                         | None \<Rightarrow> trim target)
           @ ''</a>'' \<and>
         (dq \<notin> set target \<longrightarrow> replaceChar dq ''%22'' (trim target) = trim target)"
proof -
  from assms have "startsWith (trim target) ''#''" using trim_keeps_hash by blast
  then obtain anchor where tt: "trim target = CHR ''#'' # anchor"
    by (cases "trim target") (auto simp: startsWith_def)
  have keep: "replaceChar dq ''%22'' xs = xs" if "dq \<notin> set xs" for xs
    using that by (induction xs) (auto simp: replaceChar_def)
  have "set (trim target) \<subseteq> set target"
    unfolding trim_def by (metis set_dropWhileD set_rev subsetI)
  then have "dq \<notin> set target \<longrightarrow> replaceChar dq ''%22'' (trim target) = trim target"
    using keep by blast
  moreover have "noteLink toLowerCase s target displayText =
           ''<a href='' @ quoted (replaceChar dq ''%22'' (trim target))
           @ '' data-wikilink='' @ quoted ''true'' @ ''>''
           @ escapeHtml (case displayText of
                           Some d \<Rightarrow> if d \<noteq> [] then trim d else trim target
                         | None \<Rightarrow> trim target)
           @ ''</a>''"
    by (cases displayText) (simp_all add: noteLink_def tt Let_def)
  ultimately show ?thesis by blast
qed

theorem C10_anchor_link_witness:
  "startsWith ''#heading'' ''#'' \<and> dq \<notin> set ''#heading'' \<and>
   noteLink asciiLowerCase initial ''#heading'' None =
     ''<a href='' @ quoted ''#heading'' @ '' data-wikilink='' @ quoted ''true'' @ ''>#heading</a>'' \<and>
   noteLink asciiLowerCase initial ''#heading'' (Some ''Top'') =
     ''<a href='' @ quoted ''#heading'' @ '' data-wikilink='' @ quoted ''true'' @ ''>Top</a>'' \<and>
   \<not> wikiLinkExists asciiLowerCase initial ''#heading'' \<and>
   expandLinks asciiLowerCase id initial ''see [[#heading]]'' = ''see '' @ noteLink asciiLowerCase initial ''#heading'' None"
proof -
  have h: "startsWith ''#heading'' ''#'' \<or> startsWith (trim ''#heading'') ''#''"
    by (simp add: startsWith_def)
  have q: "dq \<notin> set ''#heading''" by (simp add: dq_def)
  have t: "trim ''Top'' = ''Top''" "trim ''#heading'' = ''#heading''"
    by (simp_all add: trim_def isWhiteSpace_def)
  have e: "escapeHtml ''#heading'' = ''#heading''" "escapeHtml ''Top'' = ''Top''"
    by (simp_all add: escapeHtml_def replaceChar_def)
  have missing: "\<not> wikiLinkExists asciiLowerCase initial ''#heading''"
    by (simp add: wikiLinkExists_def initial_def clearedLookup_def has_def)
  have run: "expandLinks asciiLowerCase id initial ''see [[#heading]]'' = ''see '' @ noteLink asciiLowerCase initial ''#heading'' None"
    by code_simp
  show ?thesis
    using C10_anchor_link_never_broken [OF h, of asciiLowerCase initial None]
      C10_anchor_link_never_broken [OF h, of asciiLowerCase initial "Some ''Top''"] q t e missing run
    by (simp add: startsWith_def)
qed

end
